theory Spec2Isabelle
  imports Main "HOL-Library.Multiset"
begin

section \<open>The activity execution context of lib/activities/activity-execution.js\<close>

text \<open>
  The module exports one function, \<^verbatim>\<open>execution(activity, message, environment,
  inboundFlow, rootFlow)\<close>, which returns an object whose methods close over a handful of
  mutable variables. The embedding keeps the constructor arguments and those variables in
  one record, \<open>executionContext\<close>; a method takes the record and returns its result
  together with the updated record. An array is its list of elements, so a list stands both for
  an array and for a copy of it.

  Not embedded, because no property below reads them: \<^verbatim>\<open>getContextInput\<close>,
  \<^verbatim>\<open>getContextOutput\<close>, \<^verbatim>\<open>cancel\<close>, \<^verbatim>\<open>discard\<close> and
  \<^verbatim>\<open>resolveExpression\<close>.
\<close>

subsection \<open>JavaScript values\<close>

text \<open>
  Numbers are restricted to integers (nothing below computes with them). A plain object is
  the finite map of its own properties.
\<close>

datatype jsval =
    JUndefined
  | JNull
  | JBool bool
  | JNum int
  | JStr string
  | JArr "jsval list"
  | JObj "string \<Rightarrow> jsval option"

text \<open>The truthiness test behind \<^verbatim>\<open>if (v)\<close>, \<^verbatim>\<open>!v\<close> and \<^verbatim>\<open>a && b\<close>.\<close>

fun truthy :: "jsval \<Rightarrow> bool" where
  "truthy JUndefined = False"
| "truthy JNull = False"
| "truthy (JBool b) = b"
| "truthy (JNum n) = (n \<noteq> 0)"
| "truthy (JStr s) = (s \<noteq> [])"
| "truthy (JArr xs) = True"
| "truthy (JObj m) = True"

text \<open>
  The property read \<^verbatim>\<open>v.k\<close>. The module reads a property of a value only after
  testing the value's truthiness, so the read never meets \<^verbatim>\<open>undefined\<close> or
  \<^verbatim>\<open>null\<close>; a value that has no such own property yields \<^verbatim>\<open>undefined\<close>.
\<close>

fun getProp :: "jsval \<Rightarrow> string \<Rightarrow> jsval" where
  "getProp (JObj m) k = (case m k of None \<Rightarrow> JUndefined | Some v \<Rightarrow> v)"
| "getProp v k = JUndefined"

datatype error = TypeError

subsection \<open>Objects with an identity\<close>

text \<open>
  Sequence flows are objects, and the module compares them with \<^verbatim>\<open>indexOf\<close>, that is
  by reference. A flow is therefore its address; the heap \<open>flows\<close> gives the object at
  an address, of which the module reads \<^verbatim>\<open>id\<close> and the truthiness of
  \<^verbatim>\<open>isDefault\<close>. Two addresses may hold objects with the same \<^verbatim>\<open>id\<close>.
\<close>

type_synonym ref = nat

record flow =
  flow_id :: string
  isDefault :: bool

type_synonym flows = "ref \<Rightarrow> flow"

text \<open>
  The object returned by \<^verbatim>\<open>getInput\<close> and by the environment carries its address too,
  so that "the same object" and "an equal object" differ. The next free address is threaded
  through every function that may allocate such an object.
\<close>

record obj =
  addr :: ref
  props :: "string \<rightharpoonup> jsval"

type_synonym heap = nat

subsection \<open>Collaborators\<close>

text \<open>
  The environment, the parameter descriptors and the Form class live outside this module.
  Each is represented by the methods the module calls, with no assumption on what they
  compute: \<^verbatim>\<open>environment.getVariablesAndServices()\<close> may return a fresh object or the
  same one on every call.
\<close>

codatatype environment =
  Environment
    (getVariablesAndServices: "heap \<Rightarrow> obj \<times> heap")
    (clone: "jsval \<Rightarrow> environment")

record param =
  name :: string
  getInputValue :: "jsval \<Rightarrow> (string \<rightharpoonup> jsval) \<Rightarrow> jsval"
  getOutputValue :: "jsval \<Rightarrow> (string \<rightharpoonup> jsval) \<Rightarrow> jsval"

record io =
  io_input :: "param list option"
  io_output :: "param list option"

text \<open>
  \<open>Form fd inp env\<close> stands for the instance \<^verbatim>\<open>new Form(fd)\<close> after
  \<^verbatim>\<open>init(inp, env)\<close>.
\<close>

type_synonym formClass = "jsval \<Rightarrow> obj \<Rightarrow> environment \<Rightarrow> jsval"

text \<open>
  The activity: \<^verbatim>\<open>id\<close>, \<^verbatim>\<open>type\<close>, \<^verbatim>\<open>form\<close>, \<^verbatim>\<open>io\<close>, \<^verbatim>\<open>inbound\<close>,
  \<^verbatim>\<open>outbound\<close> and the optional hook \<^verbatim>\<open>getState\<close>, given by the mapping it returns.
  \<^verbatim>\<open>getPendingInbound\<close> tests \<^verbatim>\<open>!inbound\<close>, so \<open>inbound\<close> may be missing;
  \<^verbatim>\<open>outbound.length\<close> is read at construction, so \<open>outbound\<close> is a list.
\<close>

record activity =
  activityId :: string
  activityType :: string
  form :: jsval
  io :: "io option"
  inbound :: "ref list option"
  outbound :: "ref list"
  activity_getState :: "(string \<rightharpoonup> jsval) option"

text \<open>
  What a caller's completion callback received: the callback and its arguments, in call
  order.
\<close>

type_synonym callback = nat
type_synonym trace = "(callback \<times> jsval list) list"

text \<open>
  The execution context. The first six fields are fixed at construction; the next six are
  the closure variables \<^verbatim>\<open>stopped\<close>, \<^verbatim>\<open>pendingInbound\<close>, \<^verbatim>\<open>pendingOutbound\<close>,
  \<^verbatim>\<open>savedState\<close>, \<^verbatim>\<open>resultData\<close>, \<^verbatim>\<open>inputResult\<close> (\<open>None\<close> while
  \<^verbatim>\<open>undefined\<close>); the last four are the properties \<^verbatim>\<open>form\<close>, \<^verbatim>\<open>error\<close>,
  \<^verbatim>\<open>signal\<close>, \<^verbatim>\<open>complete\<close> that \<^verbatim>\<open>postpone\<close> attaches. An entry \<open>None\<close> of a
  pending list is \<^verbatim>\<open>undefined\<close>.
\<close>

record executionContext =
  ctx_id :: string
  activity :: activity
  message :: jsval
  environment :: environment
  inboundFlow :: "ref option"
  rootFlow :: "ref option"
  stopped :: "bool option"
  pendingInbound :: "ref option list option"
  pendingOutbound :: "ref option list option"
  savedState :: "(string \<rightharpoonup> jsval) option"
  resultData :: jsval
  inputResult :: "obj option"
  ctx_form :: "jsval option"
  ctx_error :: "(jsval \<Rightarrow> trace \<Rightarrow> trace) option"
  ctx_signal :: "(jsval \<Rightarrow> trace \<Rightarrow> trace) option"
  ctx_complete :: "(jsval list \<Rightarrow> trace \<Rightarrow> trace) option"

subsection \<open>Construction and identity\<close>

text \<open>
  \<^verbatim>\<open>rand.toString(16)\<close> for a non-negative integer: lower-case hexadecimal digits, most
  significant first, no leading zero. \<open>hexDigit\<close> is only applied to numbers below 16.
\<close>

definition hexDigit :: "nat \<Rightarrow> char" where
  "hexDigit d = ''0123456789abcdef'' ! d"

fun toString16 :: "nat \<Rightarrow> string" where
  "toString16 n =
     (if n < 16 then [hexDigit n] else toString16 (n div 16) @ [hexDigit (n mod 16)])"

declare toString16.simps [simp del]

text \<open>
  \<^verbatim>\<open>generateId\<close>. The source computes
  \<^verbatim>\<open>rand = Math.floor(Math.random() * (max - min)) + min\<close> with \<^verbatim>\<open>min = 11000\<close> and
  \<^verbatim>\<open>max = 999999\<close>. The product is a product of IEEE doubles, rounded before the floor is
  taken, and that arithmetic is not embedded: the argument \<open>scaled\<close> is the value of
  \<^verbatim>\<open>Math.floor(Math.random() * (max - min))\<close> as the machine computes it, a non-negative
  integer because \<^verbatim>\<open>Math.random()\<close> lies in \<open>[0, 1)\<close>.
\<close>

definition generateId :: "nat \<Rightarrow> string" where
  "generateId scaled =
     (let mn = 11000;
          rand = scaled + mn
      in toString16 rand)"

text \<open>The test \<^verbatim>\<open>message && message.loop && !message.isSequential\<close>.\<close>

definition parallelLoop :: "jsval \<Rightarrow> bool" where
  "parallelLoop msg \<longleftrightarrow>
     truthy msg \<and> truthy (getProp msg ''loop'') \<and> \<not> truthy (getProp msg ''isSequential'')"

text \<open>
  The constructor. \<open>scaled\<close> is the argument of \<open>generateId\<close>, used if \<^verbatim>\<open>generateId\<close>
  is called.
\<close>

definition execution ::
  "activity \<Rightarrow> jsval \<Rightarrow> environment \<Rightarrow> ref option \<Rightarrow> ref option \<Rightarrow> nat \<Rightarrow> executionContext"
where
  "execution act msg env inb rootf scaled =
     \<lparr> ctx_id = (if parallelLoop msg then activityId act @ ''_'' @ generateId scaled
                 else activityId act),
       activity = act, message = msg, environment = env,
       inboundFlow = inb, rootFlow = rootf,
       stopped = None, pendingInbound = None, pendingOutbound = None,
       savedState = None, resultData = JUndefined, inputResult = None,
       ctx_form = None, ctx_error = None, ctx_signal = None, ctx_complete = None \<rparr>"

definition pendingFork :: "executionContext \<Rightarrow> bool" where
  "pendingFork c \<longleftrightarrow> length (outbound (activity c)) > 1"

definition inputParameters :: "executionContext \<Rightarrow> param list option" where
  "inputParameters c = (case io (activity c) of None \<Rightarrow> None | Some i \<Rightarrow> io_input i)"

definition outputParameters :: "executionContext \<Rightarrow> param list option" where
  "outputParameters c = (case io (activity c) of None \<Rightarrow> None | Some i \<Rightarrow> io_output i)"

definition getIteration :: "executionContext \<Rightarrow> jsval \<Rightarrow> nat \<Rightarrow> executionContext" where
  "getIteration c loopMessage scaled =
     (let iterationEnvironment = clone (environment c) loopMessage
      in execution (activity c) loopMessage iterationEnvironment (inboundFlow c) (rootFlow c) scaled)"

subsection \<open>Small accessors\<close>

definition setState :: "executionContext \<Rightarrow> (string \<rightharpoonup> jsval) option \<Rightarrow> executionContext" where
  "setState c state = c\<lparr>savedState := state\<rparr>"

definition setResult :: "executionContext \<Rightarrow> jsval \<Rightarrow> executionContext" where
  "setResult c data = c\<lparr>resultData := data\<rparr>"

definition stop :: "executionContext \<Rightarrow> executionContext" where
  "stop c = c\<lparr>stopped := Some True\<rparr>"

definition isStopped :: "executionContext \<Rightarrow> bool option" where
  "isStopped c = stopped c"

subsection \<open>Pending flows\<close>

text \<open>
  \<^verbatim>\<open>xs.indexOf(x)\<close>: the first index holding \<open>x\<close>, or \<open>-1\<close>.
\<close>

fun indexOf :: "'a list \<Rightarrow> 'a \<Rightarrow> int" where
  "indexOf [] x = -1"
| "indexOf (y # ys) x =
     (if y = x then 0 else (let i = indexOf ys x in if i < 0 then -1 else i + 1))"

text \<open>
  \<^verbatim>\<open>xs.splice(start, 1)\<close>, as the list left behind. A negative \<open>start\<close> counts from the
  end, and a \<open>start\<close> past the end removes nothing.
\<close>

definition splice1 :: "'a list \<Rightarrow> int \<Rightarrow> 'a list" where
  "splice1 xs start =
     (let n = int (length xs);
          s = (if start < 0 then max (n + start) 0 else min start n)
      in take (nat s) xs @ drop (nat s + 1) xs)"

definition getPendingInbound :: "executionContext \<Rightarrow> ref option list \<times> executionContext" where
  "getPendingInbound c =
     (case pendingInbound c of
        Some cached \<Rightarrow> (cached, c)
      | None \<Rightarrow>
          (case inbound (activity c) of
             None \<Rightarrow> ([], c)
           | Some inb \<Rightarrow>
               if length inb = 0 then ([], c)
               else (case inboundFlow c of
                       None \<Rightarrow> (map Some inb, c)
                     | Some triggering \<Rightarrow>
                         (let inboundIndex = indexOf inb triggering;
                              result = (if inboundIndex > -1 then splice1 inb inboundIndex else inb)
                          in (map Some result, c\<lparr>pendingInbound := Some (map Some result)\<rparr>)))))"

definition getPendingOutbound ::
  "flows \<Rightarrow> executionContext \<Rightarrow> ref option list \<times> executionContext"
where
  "getPendingOutbound fl c =
     (case pendingOutbound c of
        Some cached \<Rightarrow> (cached, c)
      | None \<Rightarrow>
          (let out = outbound (activity c);
               computed =
                 (if length out > 1 then
                    (case find (\<lambda>f. isDefault (fl f)) out of
                       None \<Rightarrow> out
                     | Some defaultFlow \<Rightarrow> splice1 out (indexOf out defaultFlow) @ [defaultFlow])
                  else out)
           in (map Some computed, c\<lparr>pendingOutbound := Some (map Some computed)\<rparr>)))"

subsection \<open>Writing properties\<close>

text \<open>
  The module writes properties with \<^verbatim>\<open>o[k] = v\<close> and with \<^verbatim>\<open>Object.assign\<close>, both of
  which go through the property setter of the language. For every name but one this creates or
  overwrites the own property \<open>k\<close> of \<open>o\<close>. The name \<^verbatim>\<open>__proto__\<close> is the exception: unless
  \<open>o\<close> already has an own property of that name, the write walks up the prototype chain and
  normally ends in the accessor \<^verbatim>\<open>Object.prototype.__proto__\<close>, whose setter creates no
  property: it makes \<open>v\<close> the prototype of \<open>o\<close> when \<open>v\<close> is an object or \<^verbatim>\<open>null\<close> and does
  nothing otherwise. The write creates an own property \<^verbatim>\<open>__proto__\<close> only when the chain no
  longer reaches that accessor: after the prototype has become \<^verbatim>\<open>null\<close>, or an object that
  has an own property \<^verbatim>\<open>__proto__\<close>.

  An object under construction is therefore the pair of its own properties and its prototype.
  Values of type \<open>jsval\<close> are taken to be primitives, arrays and plain objects: their own
  properties are writable data properties and their prototype is the built-in one. What the
  functions below return is the map of own properties.
\<close>

datatype prototype = ObjectPrototype | Prototype jsval

type_synonym written = "(string \<rightharpoonup> jsval) \<times> prototype"

text \<open>Does a lookup of \<^verbatim>\<open>__proto__\<close> that starts at this prototype reach the accessor?\<close>

fun reachesSetter :: "prototype \<Rightarrow> bool" where
  "reachesSetter ObjectPrototype = True"
| "reachesSetter (Prototype (JObj m)) = (m ''__proto__'' = None)"
| "reachesSetter (Prototype (JArr xs)) = True"
| "reachesSetter (Prototype v) = False"

text \<open>The setter accepts objects and \<^verbatim>\<open>null\<close>.\<close>

fun isObjectOrNull :: "jsval \<Rightarrow> bool" where
  "isObjectOrNull JNull = True"
| "isObjectOrNull (JArr xs) = True"
| "isObjectOrNull (JObj m) = True"
| "isObjectOrNull v = False"

text \<open>\<^verbatim>\<open>o[k] = v\<close>.\<close>

definition setProperty :: "written \<Rightarrow> string \<Rightarrow> jsval \<Rightarrow> written" where
  "setProperty obj k v =
     (case obj of (own, p) \<Rightarrow>
        if k = ''__proto__'' \<and> own k = None \<and> reachesSetter p
        then (own, if isObjectOrNull v then Prototype v else p)
        else (own(k \<mapsto> v), p))"

text \<open>
  Copying the own properties of one source onto a target, as \<^verbatim>\<open>Object.assign\<close> does for
  each source with \<^verbatim>\<open>target[k] = source[k]\<close>. The writes of different names do not
  influence each other, so the names other than \<^verbatim>\<open>__proto__\<close> are written at once.
\<close>

definition assignFrom :: "written \<Rightarrow> (string \<rightharpoonup> jsval) \<Rightarrow> written" where
  "assignFrom target src =
     (case target of (own, p) \<Rightarrow>
        (let copied = (own ++ (src |` (- {''__proto__''})), p)
         in case src ''__proto__'' of
              None \<Rightarrow> copied
            | Some v \<Rightarrow> setProperty copied ''__proto__'' v))"

text \<open>
  \<^verbatim>\<open>Object.assign(target, ...sources)\<close>: the sources are copied onto the target from left
  to right, and an \<^verbatim>\<open>undefined\<close> source is skipped.
\<close>

fun assign :: "written \<Rightarrow> (string \<rightharpoonup> jsval) option list \<Rightarrow> written" where
  "assign target [] = target"
| "assign target (None # sources) = assign target sources"
| "assign target (Some src # sources) = assign (assignFrom target src) sources"

subsection \<open>Input and output\<close>

text \<open>
  The loop \<^verbatim>\<open>inputParameters.forEach(...)\<close> of \<^verbatim>\<open>getInput\<close>: every parameter asks the
  environment for its scope again. A collaborator is handed the own properties of the scope.
\<close>

fun resolveInput ::
  "param list \<Rightarrow> jsval \<Rightarrow> environment \<Rightarrow> written \<Rightarrow> heap \<Rightarrow> written \<times> heap"
where
  "resolveInput [] msg env acc h = (acc, h)"
| "resolveInput (parm # parms) msg env acc h =
     (let (scope, h') = getVariablesAndServices env h
      in resolveInput parms msg env
           (setProperty acc (name parm) (getInputValue parm msg (props scope))) h')"

definition getInput :: "executionContext \<Rightarrow> heap \<Rightarrow> obj \<times> executionContext \<times> heap" where
  "getInput c h =
     (case inputResult c of
        Some cached \<Rightarrow> (cached, c, h)
      | None \<Rightarrow>
          (case inputParameters c of
             None \<Rightarrow>
               (let (scope, h') = getVariablesAndServices (environment c) h in (scope, c, h'))
           | Some parms \<Rightarrow>
               (let (filled, h') =
                      resolveInput parms (message c) (environment c)
                        (Map.empty, ObjectPrototype) (Suc h);
                    result = \<lparr>addr = h, props = fst filled\<rparr>
                in (result, c\<lparr>inputResult := Some result\<rparr>, h'))))"

text \<open>The loop \<^verbatim>\<open>outputParameters.forEach(...)\<close> of \<^verbatim>\<open>getOutput\<close>.\<close>

fun resolveOutput :: "param list \<Rightarrow> jsval \<Rightarrow> (string \<rightharpoonup> jsval) \<Rightarrow> written \<Rightarrow> written" where
  "resolveOutput [] res scope acc = acc"
| "resolveOutput (parm # parms) res scope acc =
     resolveOutput parms res scope (setProperty acc (name parm) (getOutputValue parm res scope))"

definition getOutput :: "executionContext \<Rightarrow> heap \<Rightarrow> jsval \<times> executionContext \<times> heap" where
  "getOutput c h =
     (case outputParameters c of
        None \<Rightarrow> (resultData c, c, h)
      | Some parms \<Rightarrow>
          (let (envScope, h1) = getVariablesAndServices (environment c) h;
               (inp, c1, h2) = getInput c h1;
               variablesAndServicesWithInput =
                 fst (assign (Map.empty, ObjectPrototype) [Some (props envScope), Some (props inp)])
           in (JObj (fst (resolveOutput parms (resultData c) variablesAndServicesWithInput
                            (Map.empty, ObjectPrototype))),
               c1, h2)))"

definition getForm ::
  "formClass \<Rightarrow> executionContext \<Rightarrow> heap \<Rightarrow> jsval \<times> executionContext \<times> heap"
where
  "getForm Form c h =
     (let (inp, c1, h1) = getInput c h
      in (Form (getProp (form (activity c)) ''formData'') inp (environment c), c1, h1))"

subsection \<open>Postponement\<close>

text \<open>
  The three handles are closures over \<open>executeCallback\<close>; calling one appends the call it
  makes to the trace.
\<close>

definition postpone ::
  "formClass \<Rightarrow> executionContext \<Rightarrow> callback \<Rightarrow> heap \<Rightarrow> executionContext \<times> heap"
where
  "postpone Form c executeCallback h =
     (let (c1, h1) =
            (if truthy (form (activity c))
             then (let (formInstance, c', h') = getForm Form c h
                   in (c'\<lparr>ctx_form := Some formInstance\<rparr>, h'))
             else (c, h))
      in (c1\<lparr> ctx_error := Some (\<lambda>err tr. tr @ [(executeCallback, [err])]),
              ctx_signal := Some (\<lambda>inp tr. tr @ [(executeCallback, [JNull, inp])]),
              ctx_complete := Some (\<lambda>args tr. tr @ [(executeCallback, JNull # args)]) \<rparr>,
          h1))"

subsection \<open>Snapshot and restore\<close>

text \<open>\<^verbatim>\<open>state.k\<close> on a mapping.\<close>

definition stateProp :: "(string \<rightharpoonup> jsval) \<Rightarrow> string \<Rightarrow> jsval" where
  "stateProp state k = (case state k of None \<Rightarrow> JUndefined | Some v \<Rightarrow> v)"

text \<open>
  \<^verbatim>\<open>v.map((stateFlowId) => edges.find((flow) => flow.id === stateFlowId))\<close>. Only an array
  has \<^verbatim>\<open>map\<close>; \<^verbatim>\<open>edges.find\<close> is reached once per element, so a missing edge
  list fails only on a non-empty array. \<^verbatim>\<open>find\<close> yields \<^verbatim>\<open>undefined\<close> when no
  edge has the identifier, and \<^verbatim>\<open>map\<close> keeps that entry.
\<close>

definition mapFind :: "flows \<Rightarrow> ref list option \<Rightarrow> jsval \<Rightarrow> error + ref option list" where
  "mapFind fl edges v =
     (case v of
        JArr ids \<Rightarrow>
          (if ids = [] then Inr []
           else (case edges of
                   None \<Rightarrow> Inl TypeError
                 | Some es \<Rightarrow>
                     Inr (map (\<lambda>stateFlowId. find (\<lambda>f. JStr (flow_id (fl f)) = stateFlowId) es) ids)))
      | _ \<Rightarrow> Inl TypeError)"

text \<open>
  \<^verbatim>\<open>applyState\<close> returns nothing; the first component is the error it raised, if any. An
  error in the second step leaves the first assignment in place.
\<close>

definition applyState ::
  "flows \<Rightarrow> executionContext \<Rightarrow> (string \<rightharpoonup> jsval) \<Rightarrow> error option \<times> executionContext"
where
  "applyState fl c state =
     (let inb = stateProp state ''pendingInbound'';
          outb = stateProp state ''pendingOutbound''
      in case (if truthy inb
               then (case mapFind fl (inbound (activity c)) inb of
                       Inl e \<Rightarrow> Inl e
                     | Inr restored \<Rightarrow> Inr (c\<lparr>pendingInbound := Some restored\<rparr>))
               else Inr c) of
           Inl e \<Rightarrow> (Some e, c)
         | Inr c1 \<Rightarrow>
             (if truthy outb
              then (case mapFind fl (Some (outbound (activity c))) outb of
                      Inl e \<Rightarrow> (Some e, c1)
                    | Inr restored \<Rightarrow> (None, c1\<lparr>pendingOutbound := Some restored\<rparr>))
              else (None, c1)))"

text \<open>
  \<^verbatim>\<open>pending.map((f) => f.id)\<close>: reading \<^verbatim>\<open>id\<close> of an \<^verbatim>\<open>undefined\<close> entry raises.
\<close>

fun flowIds :: "flows \<Rightarrow> ref option list \<Rightarrow> error + jsval list" where
  "flowIds fl [] = Inr []"
| "flowIds fl (None # fs) = Inl TypeError"
| "flowIds fl (Some f # fs) =
     (case flowIds fl fs of Inl e \<Rightarrow> Inl e | Inr ids \<Rightarrow> Inr (JStr (flow_id (fl f)) # ids))"

text \<open>
  \<^verbatim>\<open>getState\<close>. The object returned by the activity's hook is taken to be a plain object.
\<close>

definition getState ::
  "formClass \<Rightarrow> flows \<Rightarrow> executionContext \<Rightarrow> (string \<rightharpoonup> jsval) option \<Rightarrow> heap
     \<Rightarrow> (error + (string \<rightharpoonup> jsval)) \<times> executionContext \<times> heap"
where
  "getState Form fl c override h =
     (let state0 =
            ((case activity_getState (activity c) of Some s \<Rightarrow> s | None \<Rightarrow> Map.empty),
             ObjectPrototype);
          (state1, c1, h1) =
            (if truthy (form (activity c))
             then (let (formInstance, c', h') = getForm Form c h
                   in (setProperty state0 ''form'' formInstance, c', h'))
             else (state0, c, h))
      in if pendingFork c
         then (let (pending, c2) = getPendingOutbound fl c1
               in case flowIds fl pending of
                    Inl e \<Rightarrow> (Inl e, c2, h1)
                  | Inr ids \<Rightarrow>
                      (Inr (fst (assign (setProperty state1 ''pendingOutbound'' (JArr ids))
                                   [override, savedState c])),
                       c2, h1))
         else (Inr (fst (assign state1 [override, savedState c])), c1, h1))"

subsection \<open>Notions used in the statements\<close>

text \<open>An optional mapping read as a mapping: \<^verbatim>\<open>undefined\<close> contributes no key.\<close>

definition orEmpty :: "(string \<rightharpoonup> jsval) option \<Rightarrow> (string \<rightharpoonup> jsval)" where
  "orEmpty m = (case m of None \<Rightarrow> Map.empty | Some s \<Rightarrow> s)"

text \<open>
  The order in which \<^verbatim>\<open>getPendingOutbound\<close> lists the outbound edges when it computes
  the list itself.
\<close>

definition defaultLast :: "flows \<Rightarrow> ref list \<Rightarrow> ref list" where
  "defaultLast fl out =
     (if length out > 1 then
        (case find (\<lambda>f. isDefault (fl f)) out of
           None \<Rightarrow> out
         | Some d \<Rightarrow> splice1 out (indexOf out d) @ [d])
      else out)"

text \<open>
  An entry of a restored list resolves an identifier against the edges: it is the first edge
  with that identifier, or \<^verbatim>\<open>undefined\<close> when no edge has it.
\<close>

definition resolves :: "flows \<Rightarrow> ref list \<Rightarrow> jsval \<Rightarrow> ref option \<Rightarrow> bool" where
  "resolves fl edges ident entry \<longleftrightarrow>
     (case entry of
        None \<Rightarrow> (\<forall>f\<in>set edges. JStr (flow_id (fl f)) \<noteq> ident)
      | Some f \<Rightarrow>
          (\<exists>pre post. edges = pre @ f # post \<and> JStr (flow_id (fl f)) = ident
             \<and> (\<forall>g\<in>set pre. JStr (flow_id (fl g)) \<noteq> ident)))"

text \<open>
  A value that, written to \<^verbatim>\<open>__proto__\<close> of a new object, leaves the accessor reachable
  for the next such write: anything but \<^verbatim>\<open>null\<close> and an object with an own property
  \<^verbatim>\<open>__proto__\<close>.
\<close>

fun keepsSetter :: "jsval \<Rightarrow> bool" where
  "keepsSetter JNull = False"
| "keepsSetter (JObj m) = (m ''__proto__'' = None)"
| "keepsSetter v = True"

text \<open>
  The scope handed to the output parameters, \<^verbatim>\<open>Object.assign({}, envScope, input)\<close>, by
  its own properties: the union of the two, the input winning on a shared name. An own
  property \<^verbatim>\<open>__proto__\<close> of a source is not copied, unless both sources have one and the
  environment's is \<^verbatim>\<open>null\<close> or an object with an own \<^verbatim>\<open>__proto__\<close>.
\<close>

definition mergedScope :: "(string \<rightharpoonup> jsval) \<Rightarrow> (string \<rightharpoonup> jsval) \<Rightarrow> (string \<rightharpoonup> jsval)" where
  "mergedScope envScope inp =
     (\<lambda>k. if k = ''__proto__''
          then (case envScope k of
                  None \<Rightarrow> None
                | Some v \<Rightarrow>
                    (case inp k of
                       None \<Rightarrow> None
                     | Some w \<Rightarrow> if keepsSetter v then None else Some w))
          else (envScope ++ inp) k)"

text \<open>
  The pending-outbound list of a context, where it has one, holds outbound edges of the
  activity or \<^verbatim>\<open>undefined\<close>; this is so in every context the module can produce. In
  \<open>pendingEdges\<close> no entry is \<^verbatim>\<open>undefined\<close>.
\<close>

definition pendingWithinEdges :: "executionContext \<Rightarrow> bool" where
  "pendingWithinEdges c \<longleftrightarrow>
     (case pendingOutbound c of
        None \<Rightarrow> True
      | Some xs \<Rightarrow>
          list_all (\<lambda>e. case e of None \<Rightarrow> True | Some f \<Rightarrow> f \<in> set (outbound (activity c))) xs)"

definition pendingEdges :: "executionContext \<Rightarrow> bool" where
  "pendingEdges c \<longleftrightarrow>
     (case pendingOutbound c of
        None \<Rightarrow> True
      | Some xs \<Rightarrow>
          list_all (\<lambda>e. case e of None \<Rightarrow> False | Some f \<Rightarrow> f \<in> set (outbound (activity c))) xs)"

text \<open>
  The value of \<^verbatim>\<open>state.pendingInbound\<close> lets \<^verbatim>\<open>applyState\<close> get past its first step: it is
  falsy, or it is an array and the activity has an inbound list to look its identifiers up in
  (an empty array needs none).
\<close>

definition restorable :: "ref list option \<Rightarrow> jsval \<Rightarrow> bool" where
  "restorable edges v \<longleftrightarrow>
     (case v of JArr ids \<Rightarrow> ids = [] \<or> edges \<noteq> None | _ \<Rightarrow> \<not> truthy v)"

subsection \<open>Sample data\<close>

text \<open>
  An environment that builds a new scope object on every call of
  \<^verbatim>\<open>getVariablesAndServices()\<close>, with the given variables and services, and whose clone
  behaves the same.
\<close>

primcorec freshEnv :: "(string \<rightharpoonup> jsval) \<Rightarrow> environment" where
  "getVariablesAndServices (freshEnv vars) = (\<lambda>h. (\<lparr>addr = h, props = vars\<rparr>, Suc h))"
| "clone (freshEnv vars) = (\<lambda>loopMessage. freshEnv vars)"

text \<open>
  Flow objects at the addresses 0 to 4; every other address holds one more object whose
  \<^verbatim>\<open>id\<close> is that of the object at address 3.
\<close>

definition sampleFlows :: flows where
  "sampleFlows r =
     (if r = 0 then \<lparr>flow_id = ''A'', isDefault = False\<rparr>
      else if r = 1 then \<lparr>flow_id = ''B'', isDefault = True\<rparr>
      else if r = 2 then \<lparr>flow_id = ''C'', isDefault = False\<rparr>
      else if r = 3 then \<lparr>flow_id = ''in1'', isDefault = False\<rparr>
      else if r = 4 then \<lparr>flow_id = ''in2'', isDefault = False\<rparr>
      else \<lparr>flow_id = ''in1'', isDefault = False\<rparr>)"

definition gateway :: activity where
  "gateway =
     \<lparr> activityId = ''decision'', activityType = ''exclusiveGateway'', form = JUndefined,
       io = None, inbound = Some [3, 4], outbound = [0, 1, 2], activity_getState = None \<rparr>"

definition loopMessage :: jsval where
  "loopMessage = JObj [''loop'' \<mapsto> JBool True, ''isSequential'' \<mapsto> JBool False]"

definition sequentialMessage :: jsval where
  "sequentialMessage = JObj [''loop'' \<mapsto> JBool True, ''isSequential'' \<mapsto> JBool True]"

text \<open>
  Two parameter descriptors: \<open>amountParam\<close> is an input parameter reading \<^verbatim>\<open>total\<close>
  from the scope, and \<open>resultParam\<close> is an output parameter \<^verbatim>\<open>result\<close> mapping from the
  raw result key \<^verbatim>\<open>r\<close>.
\<close>

definition amountParam :: param where
  "amountParam =
     \<lparr> name = ''amount'',
       getInputValue = (\<lambda>msg scope. case scope ''total'' of None \<Rightarrow> JUndefined | Some v \<Rightarrow> v),
       getOutputValue = (\<lambda>res scope. JUndefined) \<rparr>"

definition resultParam :: param where
  "resultParam =
     \<lparr> name = ''result'',
       getInputValue = (\<lambda>msg scope. JUndefined),
       getOutputValue = (\<lambda>res scope. getProp res ''r'') \<rparr>"

definition task :: activity where
  "task =
     \<lparr> activityId = ''task'', activityType = ''userTask'', form = JUndefined,
       io = Some \<lparr>io_input = Some [amountParam], io_output = Some [resultParam]\<rparr>,
       inbound = Some [3], outbound = [1, 0],
       activity_getState = Some [''x'' \<mapsto> JNum 5, ''entered'' \<mapsto> JBool True] \<rparr>"

text \<open>
  A second non-sequential loop message, and a parameter descriptor named \<^verbatim>\<open>__proto__\<close>
  with an activity that declares it for input and for output.
\<close>

definition loopMessage2 :: jsval where
  "loopMessage2 =
     JObj [''loop'' \<mapsto> JBool True, ''isSequential'' \<mapsto> JBool False, ''index'' \<mapsto> JNum 1]"

definition protoParam :: param where
  "protoParam =
     \<lparr> name = ''__proto__'',
       getInputValue = (\<lambda>msg scope. JNum 1),
       getOutputValue = (\<lambda>res scope. JNum 1) \<rparr>"

definition protoTask :: activity where
  "protoTask =
     \<lparr> activityId = ''protoTask'', activityType = ''task'', form = JUndefined,
       io = Some \<lparr>io_input = Some [protoParam], io_output = Some [protoParam]\<rparr>,
       inbound = Some [3], outbound = [0],
       activity_getState = None \<rparr>"

section \<open>Properties\<close>

lemma indexOf_ge: "indexOf xs x \<ge> -1"
  by (induction xs) (auto simp: Let_def)

lemma indexOf_first: "x \<notin> set pre \<Longrightarrow> indexOf (pre @ x # post) x = int (length pre)"
  by (induction pre) (auto simp: Let_def)

lemma indexOf_absent: "x \<notin> set xs \<Longrightarrow> indexOf xs x = -1"
  by (induction xs) (auto simp: Let_def)

lemma splice1_at: "splice1 (pre @ x # post) (int (length pre)) = pre @ post"
  by (simp add: splice1_def Let_def)

lemma find_first: "P x \<Longrightarrow> \<forall>y\<in>set pre. \<not> P y \<Longrightarrow> find P (pre @ x # post) = Some x"
  by (induction pre) auto

lemma find_none: "\<forall>y\<in>set xs. \<not> P y \<Longrightarrow> find P xs = None"
  by (induction xs) auto

lemma splice1_indexOf_remove1: "x \<in> set xs \<Longrightarrow> splice1 xs (indexOf xs x) = remove1 x xs"
proof -
  assume "x \<in> set xs"
  then obtain pre post where xs: "xs = pre @ x # post" and nin: "x \<notin> set pre"
    by (meson split_list_first)
  have "remove1 x xs = pre @ post" using xs nin by (simp add: remove1_append)
  then show ?thesis using xs nin by (simp add: indexOf_first splice1_at)
qed

lemma defaultLast_nodefault:
  "\<forall>f\<in>set out. \<not> isDefault (fl f) \<Longrightarrow> defaultLast fl out = out"
  by (simp add: defaultLast_def find_none)

lemma defaultLast_first:
  assumes "length out > 1" "out = pre @ d # post" "isDefault (fl d)"
    "\<forall>f\<in>set pre. \<not> isDefault (fl f)"
  shows "defaultLast fl out = pre @ post @ [d]"
proof -
  have "d \<notin> set pre" using assms by auto
  then show ?thesis using assms
    by (simp add: defaultLast_def find_first indexOf_first splice1_at)
qed

lemma defaultLast_mset: "mset (defaultLast fl out) = mset out"
proof (cases "length out > 1 \<and> \<not> (\<forall>f\<in>set out. \<not> isDefault (fl f))")
  case True
  then obtain pre d post where "out = pre @ d # post" "isDefault (fl d)"
    "\<forall>f\<in>set pre. \<not> isDefault (fl f)"
    using split_list_first_prop [of out "\<lambda>f. isDefault (fl f)"] by blast
  then show ?thesis using True defaultLast_first [of out pre d post fl] by simp
next
  case False
  then show ?thesis by (auto simp: defaultLast_def find_none)
qed

lemma getPendingOutbound_fresh:
  "pendingOutbound c = None \<Longrightarrow>
   getPendingOutbound fl c
     = (map Some (defaultLast fl (outbound (activity c))),
        c\<lparr>pendingOutbound := Some (map Some (defaultLast fl (outbound (activity c))))\<rparr>)"
  by (simp add: getPendingOutbound_def defaultLast_def Let_def)

lemma getPendingOutbound_cached:
  "pendingOutbound c = Some xs \<Longrightarrow> getPendingOutbound fl c = (xs, c)"
  by (simp add: getPendingOutbound_def)


text \<open>
  \<^bold>\<open>C1.\<close> On a context, as constructed, whose activity has more than one outbound edge,
  \<^verbatim>\<open>getPendingOutbound()\<close> returns all outbound edges; the first edge flagged
  \<^verbatim>\<open>isDefault\<close>, if there is one, has moved to the end and the other edges keep their
  relative order; with no flagged edge the order is the original one. The list is cached: a
  further call returns the same list and leaves the context as it is.
\<close>

theorem getPendingOutbound_default_last:
  assumes "length (outbound act) > 1"
    and "c = execution act msg env inb rootf random"
  shows "\<exists>ordering c'.
           getPendingOutbound fl c = (map Some ordering, c')
         \<and> getPendingOutbound fl c' = (map Some ordering, c')
         \<and> mset ordering = mset (outbound act)
         \<and> ((\<forall>f\<in>set (outbound act). \<not> isDefault (fl f)) \<longrightarrow> ordering = outbound act)
         \<and> (\<forall>pre d post. outbound act = pre @ d # post \<and> isDefault (fl d)
                \<and> (\<forall>f\<in>set pre. \<not> isDefault (fl f)) \<longrightarrow> ordering = pre @ post @ [d])"
proof -
  let ?ord = "defaultLast fl (outbound act)"
  let ?c' = "c\<lparr>pendingOutbound := Some (map Some ?ord)\<rparr>"
  have n: "pendingOutbound c = None" "activity c = act"
    using assms(2) by (simp_all add: execution_def)
  have first: "getPendingOutbound fl c = (map Some ?ord, ?c')"
    using n by (simp add: getPendingOutbound_fresh)
  have again: "getPendingOutbound fl ?c' = (map Some ?ord, ?c')"
    by (simp add: getPendingOutbound_cached)
  have nodef: "(\<forall>f\<in>set (outbound act). \<not> isDefault (fl f)) \<longrightarrow> ?ord = outbound act"
    by (simp add: defaultLast_nodefault)
  have def: "\<forall>pre d post. outbound act = pre @ d # post \<and> isDefault (fl d)
                \<and> (\<forall>f\<in>set pre. \<not> isDefault (fl f)) \<longrightarrow> ?ord = pre @ post @ [d]"
    using defaultLast_first [OF assms(1)] by blast
  show ?thesis using first again defaultLast_mset [of fl "outbound act"] nodef def by blast
qed

theorem getPendingOutbound_default_last_witness:
  "length (outbound gateway) > 1
   \<and> isDefault (sampleFlows 1)
   \<and> fst (getPendingOutbound sampleFlows
             (execution gateway JUndefined (freshEnv Map.empty) None None 0))
       = [Some 0, Some 2, Some 1]"
proof -
  have len: "length (outbound gateway) > 1" by (simp add: gateway_def)
  from getPendingOutbound_default_last [OF len refl, where fl = sampleFlows and msg = JUndefined
      and env = "freshEnv Map.empty" and inb = None and rootf = None and random = 0]
  obtain ordering c' where
    g: "getPendingOutbound sampleFlows
          (execution gateway JUndefined (freshEnv Map.empty) None None 0) = (map Some ordering, c')"
    and d: "\<forall>pre d post. outbound gateway = pre @ d # post \<and> isDefault (sampleFlows d)
              \<and> (\<forall>f\<in>set pre. \<not> isDefault (sampleFlows f)) \<longrightarrow> ordering = pre @ post @ [d]"
    by blast
  have "ordering = [0] @ [2] @ [1]"
    using d [rule_format, of "[0]" 1 "[2]"] by (simp add: gateway_def sampleFlows_def)
  then show ?thesis using g len by (simp add: sampleFlows_def)
qed

text \<open>
  \<^bold>\<open>C2.\<close> A context constructed with a triggering inbound edge that is among the
  activity's inbound edges answers \<^verbatim>\<open>getPendingInbound()\<close> with the inbound edges
  minus that edge (its first occurrence), and answers a further call with the same list; a
  context constructed with no triggering edge answers with all inbound edges.
\<close>

theorem getPendingInbound_excludes_trigger:
  assumes "inbound act = Some inb"
  shows "(t \<in> set inb \<longrightarrow>
            (\<exists>c'. getPendingInbound (execution act msg env (Some t) rootf random)
                     = (map Some (remove1 t inb), c')
                 \<and> getPendingInbound c' = (map Some (remove1 t inb), c')))
       \<and> fst (getPendingInbound (execution act msg env None rootf random)) = map Some inb"
proof -
  have a: "fst (getPendingInbound (execution act msg env None rootf random)) = map Some inb"
    using assms by (cases inb) (simp_all add: getPendingInbound_def execution_def)
  have b: "\<exists>c'. getPendingInbound (execution act msg env (Some t) rootf random)
                     = (map Some (remove1 t inb), c')
                 \<and> getPendingInbound c' = (map Some (remove1 t inb), c')" if t: "t \<in> set inb"
  proof -
    let ?c = "execution act msg env (Some t) rootf random"
    let ?c' = "?c\<lparr>pendingInbound := Some (map Some (remove1 t inb))\<rparr>"
    have ne: "inb \<noteq> []" using t by auto
    have ix: "indexOf inb t > -1"
      using t by (metis indexOf_first split_list_first of_nat_0_le_iff less_le_trans
          zero_less_one neg_less_0_iff_less)
    have "getPendingInbound ?c = (map Some (remove1 t inb), ?c')"
      using assms ne ix t
      by (simp add: getPendingInbound_def execution_def Let_def splice1_indexOf_remove1)
    moreover have "getPendingInbound ?c' = (map Some (remove1 t inb), ?c')"
      by (simp add: getPendingInbound_def)
    ultimately show ?thesis by blast
  qed
  show ?thesis using a b by blast
qed

theorem getPendingInbound_excludes_trigger_witness:
  "inbound gateway = Some [3, 4] \<and> 3 \<in> set [3, 4::nat]
   \<and> fst (getPendingInbound (execution gateway JUndefined (freshEnv Map.empty) (Some 3) None 0))
       = [Some 4]
   \<and> fst (getPendingInbound (execution gateway JUndefined (freshEnv Map.empty) None None 0))
       = [Some 3, Some 4]"
proof -
  have i: "inbound gateway = Some [3, 4]" by (simp add: gateway_def)
  show ?thesis
    using getPendingInbound_excludes_trigger [OF i, where t = 3 and msg = JUndefined
        and env = "freshEnv Map.empty" and rootf = None and random = 0] i
    by auto
qed

text \<open>
  \<^bold>\<open>C10.\<close> The triggering edge is looked up by reference. A context constructed with
  an \<^verbatim>\<open>inboundFlow\<close> object that is none of the objects in the activity's inbound list
  answers \<^verbatim>\<open>getPendingInbound()\<close> with all inbound edges, whatever the identifiers of
  the objects are: the function does not read the heap of flows at all.
\<close>

theorem getPendingInbound_by_identity:
  assumes "inbound act = Some inb" and "t \<notin> set inb"
  shows "\<exists>c'. getPendingInbound (execution act msg env (Some t) rootf random) = (map Some inb, c')"
  using assms
  by (cases inb) (simp_all add: getPendingInbound_def execution_def Let_def indexOf_absent)

theorem getPendingInbound_by_identity_witness:
  "inbound gateway = Some [3, 4] \<and> 7 \<notin> set [3, 4::nat]
   \<and> flow_id (sampleFlows 7) = flow_id (sampleFlows 3)
   \<and> fst (getPendingInbound (execution gateway JUndefined (freshEnv Map.empty) (Some 7) None 0))
       = [Some 3, Some 4]"
proof -
  have i: "inbound gateway = Some [3, 4]" by (simp add: gateway_def)
  have n: "7 \<notin> set [3, 4::nat]" by simp
  show ?thesis
    using getPendingInbound_by_identity [OF i n, where msg = JUndefined
        and env = "freshEnv Map.empty" and rootf = None and random = 0] i
    by (auto simp: sampleFlows_def)
qed

lemma hexDigit_inj: "a < 16 \<Longrightarrow> b < 16 \<Longrightarrow> hexDigit a = hexDigit b \<longleftrightarrow> a = b"
proof -
  assume a: "a < 16" and b: "b < 16"
  have d: "distinct ''0123456789abcdef''" by simp
  have l: "length ''0123456789abcdef'' = 16" by simp
  show ?thesis unfolding hexDigit_def
    using nth_eq_iff_index_eq [OF d, of a b] a b l by simp
qed

lemma toString16_length: "length (toString16 n) = 1 \<longleftrightarrow> n < 16"
proof (induction n rule: toString16.induct)
  case (1 n)
  show ?case
  proof (cases "n < 16")
    case True
    then show ?thesis by (subst toString16.simps) simp
  next
    case False
    have "toString16 (n div 16) \<noteq> []"
      by (subst toString16.simps) simp
    then show ?thesis using False by (subst toString16.simps) simp
  qed
qed

lemma toString16_inj: "toString16 n = toString16 m \<Longrightarrow> n = m"
proof (induction n arbitrary: m rule: toString16.induct)
  case (1 n)
  show ?case
  proof (cases "n < 16")
    case True
    then have "length (toString16 m) = 1" using "1.prems" toString16_length [of n] by simp
    then have m: "m < 16" using toString16_length [of m] by simp
    have "hexDigit n = hexDigit m"
      using "1.prems" True m by (simp add: toString16.simps [of n] toString16.simps [of m])
    then show ?thesis using True m by (simp add: hexDigit_inj)
  next
    case False
    then have "length (toString16 m) \<noteq> 1" using "1.prems" toString16_length [of n] by simp
    then have m: "\<not> m < 16" using toString16_length [of m] by simp
    have eq: "toString16 (n div 16) @ [hexDigit (n mod 16)]
            = toString16 (m div 16) @ [hexDigit (m mod 16)]"
      using "1.prems" False m by (simp add: toString16.simps [of n] toString16.simps [of m])
    then have "toString16 (n div 16) = toString16 (m div 16)"
      and h: "hexDigit (n mod 16) = hexDigit (m mod 16)" by simp_all
    then have "n div 16 = m div 16" using "1.IH" [OF False] by blast
    moreover have "n mod 16 = m mod 16" using h by (simp add: hexDigit_inj)
    ultimately show ?thesis by (metis div_mult_mod_eq)
  qed
qed

lemma generateId_eq_iff: "generateId s1 = generateId s2 \<longleftrightarrow> s1 = s2"
proof -
  have "toString16 (s1 + 11000) = toString16 (s2 + 11000) \<longleftrightarrow> s1 = s2"
    using toString16_inj [of "s1 + 11000" "s2 + 11000"] by auto
  then show ?thesis by (simp add: generateId_def Let_def)
qed

text \<open>
  \<^bold>\<open>C3\<close> (as amended). A context's id is the activity's id unless the message is truthy, has
  a truthy \<^verbatim>\<open>loop\<close> and a falsy \<^verbatim>\<open>isSequential\<close>; then it is the activity's id, an
  underscore and the hexadecimal rendering of \<open>11000 + scaled\<close>, where \<open>scaled\<close> is the
  integer \<^verbatim>\<open>Math.floor(Math.random() * 988999)\<close>. So an iteration obtained from
  \<^verbatim>\<open>getIteration\<close> with a sequential loop message has the activity's id, and two iterations
  with non-sequential loop messages have the same id exactly when their draws give the same
  integer: distinct ids are not guaranteed.
\<close>

theorem execution_id:
  "ctx_id (execution act msg env inb rootf scaled)
     = (if parallelLoop msg then activityId act @ ''_'' @ toString16 (scaled + 11000)
        else activityId act)
   \<and> (\<not> parallelLoop lm \<longrightarrow> ctx_id (getIteration c lm scaled) = activityId (activity c))
   \<and> (parallelLoop lm \<longrightarrow>
        ctx_id (getIteration c lm scaled)
          = activityId (activity c) @ ''_'' @ toString16 (scaled + 11000))
   \<and> (parallelLoop lm \<and> parallelLoop lm' \<longrightarrow>
        (ctx_id (getIteration c lm s1) = ctx_id (getIteration c lm' s2) \<longleftrightarrow> s1 = s2))"
proof -
  have "generateId scaled = toString16 (scaled + 11000)"
    by (simp add: generateId_def Let_def)
  then show ?thesis
    using generateId_eq_iff [of s1 s2]
    by (simp add: execution_def getIteration_def Let_def)
qed

theorem execution_id_witness:
  "parallelLoop loopMessage \<and> \<not> parallelLoop sequentialMessage
   \<and> ctx_id (getIteration (execution gateway JUndefined (freshEnv Map.empty) None None 0)
               sequentialMessage 494499) = ''decision''
   \<and> ctx_id (getIteration (execution gateway JUndefined (freshEnv Map.empty) None None 0)
               loopMessage 494499) = ''decision_7b69b''
   \<and> parallelLoop loopMessage2
   \<and> ctx_id (getIteration (execution gateway JUndefined (freshEnv Map.empty) None None 0)
               loopMessage 0)
       \<noteq> ctx_id (getIteration (execution gateway JUndefined (freshEnv Map.empty) None None 0)
               loopMessage2 1)"
  using execution_id [where c = "execution gateway JUndefined (freshEnv Map.empty) None None 0"
      and lm = loopMessage and lm' = loopMessage2 and scaled = 494499 and ?s1.0 = 0 and ?s2.0 = 1]
    execution_id [where c = "execution gateway JUndefined (freshEnv Map.empty) None None 0"
      and lm = sequentialMessage and scaled = 494499]
  by (simp add: parallelLoop_def loopMessage_def loopMessage2_def sequentialMessage_def
      execution_def gateway_def toString16.simps hexDigit_def)

text \<open>
  Two iterations of one context, for two different non-sequential loop messages, whose draws
  both give the integer 0 (as \<^verbatim>\<open>Math.random()\<close> does for \<open>0\<close> and for \<open>2\<^sup>-\<^sup>2\<^sup>0\<close>): they
  have the same id.
\<close>

theorem iteration_id_counterexample:
  "parallelLoop loopMessage \<and> parallelLoop loopMessage2
   \<and> ctx_id (getIteration (execution gateway JUndefined (freshEnv Map.empty) None None 0)
               loopMessage 0) = ''decision_2af8''
   \<and> ctx_id (getIteration (execution gateway JUndefined (freshEnv Map.empty) None None 0)
               loopMessage2 0) = ''decision_2af8''"
  by (simp add: parallelLoop_def loopMessage_def loopMessage2_def execution_def getIteration_def
      Let_def generateId_def gateway_def toString16.simps hexDigit_def)

lemma setProperty_other:
  "k \<noteq> ''__proto__'' \<Longrightarrow> setProperty (own, p) k v = (own(k \<mapsto> v), p)"
  by (simp add: setProperty_def)

lemma setProperty_lookup:
  "k' \<noteq> ''__proto__'' \<Longrightarrow>
   fst (setProperty obj k v) k' = (if k' = k then Some v else fst obj k')"
  by (cases obj) (auto simp: setProperty_def)

lemma setProperty_dom_upper: "dom (fst (setProperty obj k v)) \<subseteq> insert k (dom (fst obj))"
  by (cases obj) (auto simp: setProperty_def split: if_splits)

lemma setProperty_dom_lower: "dom (fst obj) \<subseteq> dom (fst (setProperty obj k v))"
  by (cases obj) (auto simp: setProperty_def split: if_splits)

lemma setProperty_value:
  "fst (setProperty obj k v) k' = Some w \<Longrightarrow> fst obj k' = Some w \<or> (k' = k \<and> w = v)"
  by (cases obj) (auto simp: setProperty_def split: if_splits)

lemma setProperty_keeps:
  "fst obj ''__proto__'' = None \<Longrightarrow> reachesSetter (snd obj) \<Longrightarrow>
   (k = ''__proto__'' \<longrightarrow> keepsSetter v) \<Longrightarrow>
   fst (setProperty obj k v) ''__proto__'' = None \<and> reachesSetter (snd (setProperty obj k v))"
  by (cases obj; cases v) (auto simp: setProperty_def)

lemma assignFrom_lookup:
  "k \<noteq> ''__proto__'' \<Longrightarrow> fst (assignFrom target src) k = (fst target ++ src) k"
  by (cases target)
     (auto simp: assignFrom_def Let_def setProperty_def map_add_def restrict_map_def
        split: option.splits)

lemma assignFrom_no_proto:
  "src ''__proto__'' = None \<Longrightarrow> assignFrom target src = (fst target ++ src, snd target)"
proof -
  assume a: "src ''__proto__'' = None"
  have "src |` (- {''__proto__''}) = src"
    using a by (auto simp: restrict_map_def fun_eq_iff)
  then show ?thesis using a by (cases target) (simp add: assignFrom_def)
qed

lemma assignFrom_dom_upper: "dom (fst (assignFrom target src)) \<subseteq> dom (fst target) \<union> dom src"
  by (cases target)
     (auto simp: assignFrom_def Let_def setProperty_def restrict_map_def
        split: option.splits if_splits)

lemma resolveInput_dom_upper:
  "dom (fst (fst (resolveInput parms msg env acc h))) \<subseteq> dom (fst acc) \<union> name ` set parms"
proof (induction parms arbitrary: acc h)
  case Nil
  then show ?case by simp
next
  case (Cons p parms)
  let ?sc = "getVariablesAndServices env h"
  let ?acc = "setProperty acc (name p) (getInputValue p msg (props (fst ?sc)))"
  have unf: "resolveInput (p # parms) msg env acc h = resolveInput parms msg env ?acc (snd ?sc)"
    by (simp add: split_def Let_def)
  have ih: "dom (fst (fst (resolveInput parms msg env ?acc (snd ?sc))))
          \<subseteq> dom (fst ?acc) \<union> name ` set parms"
    by (rule Cons.IH)
  have up: "dom (fst ?acc) \<subseteq> insert (name p) (dom (fst acc))"
    by (rule setProperty_dom_upper)
  have "dom (fst ?acc) \<union> name ` set parms \<subseteq> dom (fst acc) \<union> name ` set (p # parms)"
    using up by auto
  then show ?case unfolding unf using ih by (rule order_trans [rotated])
qed

lemma resolveInput_dom_lower:
  "dom (fst acc) \<union> (name ` set parms - {''__proto__''})
     \<subseteq> dom (fst (fst (resolveInput parms msg env acc h)))"
proof (induction parms arbitrary: acc h)
  case Nil
  then show ?case by simp
next
  case (Cons p parms)
  let ?sc = "getVariablesAndServices env h"
  let ?acc = "setProperty acc (name p) (getInputValue p msg (props (fst ?sc)))"
  have ih: "dom (fst ?acc) \<union> (name ` set parms - {''__proto__''})
          \<subseteq> dom (fst (fst (resolveInput parms msg env ?acc (snd ?sc))))"
    by (rule Cons.IH)
  have lo: "dom (fst acc) \<subseteq> dom (fst ?acc)"
    by (rule setProperty_dom_lower)
  have nm: "name p \<noteq> ''__proto__'' \<Longrightarrow> name p \<in> dom (fst ?acc)"
    by (simp add: setProperty_lookup domIff)
  have unf: "resolveInput (p # parms) msg env acc h = resolveInput parms msg env ?acc (snd ?sc)"
    by (simp add: split_def Let_def)
  have "dom (fst acc) \<union> (name ` set (p # parms) - {''__proto__''})
          \<subseteq> dom (fst ?acc) \<union> (name ` set parms - {''__proto__''})"
    using lo nm by auto
  then show ?case unfolding unf using ih by (rule order_trans)
qed

lemma resolveInput_values:
  "fst (fst (resolveInput parms msg env acc h)) k = Some v \<Longrightarrow>
     fst acc k = Some v
     \<or> (\<exists>p\<in>set parms. \<exists>h0. name p = k
            \<and> v = getInputValue p msg (props (fst (getVariablesAndServices env h0))))"
proof (induction parms arbitrary: acc h)
  case Nil
  then show ?case by simp
next
  case (Cons p parms)
  let ?sc = "getVariablesAndServices env h"
  let ?acc = "setProperty acc (name p) (getInputValue p msg (props (fst ?sc)))"
  have unf: "resolveInput (p # parms) msg env acc h = resolveInput parms msg env ?acc (snd ?sc)"
    by (simp add: split_def Let_def)
  from Cons.prems have "fst (fst (resolveInput parms msg env ?acc (snd ?sc))) k = Some v"
    unfolding unf .
  from Cons.IH [OF this] show ?case
  proof
    assume "fst ?acc k = Some v"
    then have "fst acc k = Some v \<or> (k = name p \<and> v = getInputValue p msg (props (fst ?sc)))"
      by (rule setProperty_value)
    then show ?thesis by auto
  next
    assume "\<exists>p\<in>set parms. \<exists>h0. name p = k
            \<and> v = getInputValue p msg (props (fst (getVariablesAndServices env h0)))"
    then show ?thesis by auto
  qed
qed

lemma resolveInput_keeps:
  assumes "fst acc ''__proto__'' = None" "reachesSetter (snd acc)"
    and "\<forall>p\<in>set parms. \<forall>h0. name p = ''__proto__'' \<longrightarrow>
           keepsSetter (getInputValue p msg (props (fst (getVariablesAndServices env h0))))"
  shows "fst (fst (resolveInput parms msg env acc h)) ''__proto__'' = None"
  using assms
proof (induction parms arbitrary: acc h)
  case Nil
  then show ?case by simp
next
  case (Cons p parms)
  let ?sc = "getVariablesAndServices env h"
  let ?v = "getInputValue p msg (props (fst ?sc))"
  let ?acc = "setProperty acc (name p) ?v"
  have unf: "resolveInput (p # parms) msg env acc h = resolveInput parms msg env ?acc (snd ?sc)"
    by (simp add: split_def Let_def)
  have k: "name p = ''__proto__'' \<longrightarrow> keepsSetter ?v" using Cons.prems(3) by simp
  have a: "fst ?acc ''__proto__'' = None \<and> reachesSetter (snd ?acc)"
    using setProperty_keeps [OF Cons.prems(1) Cons.prems(2) k] .
  have r: "\<forall>p\<in>set parms. \<forall>h0. name p = ''__proto__'' \<longrightarrow>
           keepsSetter (getInputValue p msg (props (fst (getVariablesAndServices env h0))))"
    using Cons.prems(3) by simp
  have "fst (fst (resolveInput parms msg env ?acc (snd ?sc))) ''__proto__'' = None"
    using a r by (intro Cons.IH) simp_all
  then show ?case unfolding unf .
qed

text \<open>
  \<^bold>\<open>C4\<close> (as amended). A context that has already resolved its input returns that object
  again. Otherwise, with no declared input parameters \<^verbatim>\<open>getInput()\<close> returns what the
  environment's \<^verbatim>\<open>getVariablesAndServices()\<close> returns and stores nothing, so every call
  asks the environment again; with declared input parameters it returns a new object that has
  an entry for every declared name other than \<^verbatim>\<open>__proto__\<close> and for no undeclared name,
  each entry holding the value some parameter of that name resolved against the message and
  the environment's scope, and that object is memoized: every later call returns the identical
  object (same address, same content) and changes nothing. A parameter named
  \<^verbatim>\<open>__proto__\<close> is written through the prototype setter and leaves no entry, as long as no
  such parameter resolves to \<^verbatim>\<open>null\<close> or to an object with an own \<^verbatim>\<open>__proto__\<close>.
\<close>

theorem getInput_memo:
  "(\<forall>r. inputResult c = Some r \<longrightarrow> getInput c h = (r, c, h))
   \<and> (inputResult c = None \<and> inputParameters c = None \<longrightarrow>
        getInput c h = (fst (getVariablesAndServices (environment c) h), c,
                        snd (getVariablesAndServices (environment c) h)))
   \<and> (\<forall>parms. inputResult c = None \<and> inputParameters c = Some parms \<longrightarrow>
        (\<exists>r c' h'. getInput c h = (r, c', h')
           \<and> addr r = h
           \<and> name ` set parms - {''__proto__''} \<subseteq> dom (props r)
           \<and> dom (props r) \<subseteq> name ` set parms
           \<and> (\<forall>k v. props r k = Some v \<longrightarrow>
                 (\<exists>p\<in>set parms. \<exists>h0. name p = k
                    \<and> v = getInputValue p (message c)
                            (props (fst (getVariablesAndServices (environment c) h0)))))
           \<and> ((\<forall>p\<in>set parms. \<forall>h0. name p = ''__proto__'' \<longrightarrow>
                   keepsSetter (getInputValue p (message c)
                                  (props (fst (getVariablesAndServices (environment c) h0)))))
                \<longrightarrow> props r ''__proto__'' = None)
           \<and> (\<forall>h2. getInput c' h2 = (r, c', h2))))"
proof (intro conjI allI impI)
  fix r assume "inputResult c = Some r"
  then show "getInput c h = (r, c, h)" by (simp add: getInput_def)
next
  assume "inputResult c = None \<and> inputParameters c = None"
  then show "getInput c h = (fst (getVariablesAndServices (environment c) h), c,
                            snd (getVariablesAndServices (environment c) h))"
    by (simp add: getInput_def split_def Let_def)
next
  fix parms
  assume p: "inputResult c = None \<and> inputParameters c = Some parms"
  let ?res = "resolveInput parms (message c) (environment c) (Map.empty, ObjectPrototype) (Suc h)"
  let ?r = "\<lparr>addr = h, props = fst (fst ?res)\<rparr>"
  let ?c' = "c\<lparr>inputResult := Some ?r\<rparr>"
  have g: "getInput c h = (?r, ?c', snd ?res)"
    using p by (simp add: getInput_def split_def Let_def)
  have a: "addr ?r = h" by simp
  have lo: "name ` set parms - {''__proto__''} \<subseteq> dom (props ?r)"
    using resolveInput_dom_lower
      [of "(Map.empty, ObjectPrototype)" parms "message c" "environment c" "Suc h"]
    by simp
  have up: "dom (props ?r) \<subseteq> name ` set parms"
    using resolveInput_dom_upper
      [of parms "message c" "environment c" "(Map.empty, ObjectPrototype)" "Suc h"]
    by simp
  have v: "\<forall>k v. props ?r k = Some v \<longrightarrow>
                 (\<exists>p\<in>set parms. \<exists>h0. name p = k
                    \<and> v = getInputValue p (message c)
                            (props (fst (getVariablesAndServices (environment c) h0))))"
    using resolveInput_values
      [of parms "message c" "environment c" "(Map.empty, ObjectPrototype)" "Suc h"]
    by auto
  have k: "(\<forall>p\<in>set parms. \<forall>h0. name p = ''__proto__'' \<longrightarrow>
                   keepsSetter (getInputValue p (message c)
                                  (props (fst (getVariablesAndServices (environment c) h0)))))
                \<longrightarrow> props ?r ''__proto__'' = None"
    using resolveInput_keeps
      [of "(Map.empty, ObjectPrototype)" parms "message c" "environment c" "Suc h"]
    by simp
  have m: "\<forall>h2. getInput ?c' h2 = (?r, ?c', h2)"
    by (simp add: getInput_def)
  show "\<exists>r c' h'. getInput c h = (r, c', h')
           \<and> addr r = h
           \<and> name ` set parms - {''__proto__''} \<subseteq> dom (props r)
           \<and> dom (props r) \<subseteq> name ` set parms
           \<and> (\<forall>k v. props r k = Some v \<longrightarrow>
                 (\<exists>p\<in>set parms. \<exists>h0. name p = k
                    \<and> v = getInputValue p (message c)
                            (props (fst (getVariablesAndServices (environment c) h0)))))
           \<and> ((\<forall>p\<in>set parms. \<forall>h0. name p = ''__proto__'' \<longrightarrow>
                   keepsSetter (getInputValue p (message c)
                                  (props (fst (getVariablesAndServices (environment c) h0)))))
                \<longrightarrow> props r ''__proto__'' = None)
           \<and> (\<forall>h2. getInput c' h2 = (r, c', h2))"
    apply (rule exI [of _ ?r])
    apply (rule exI [of _ ?c'])
    apply (rule exI [of _ "snd ?res"])
    apply (intro conjI)
          apply (fact g)
         apply (fact a)
        apply (fact lo)
       apply (fact up)
      apply (fact v)
     apply (fact k)
    apply (fact m)
    done
qed

theorem getInput_memo_witness:
  "inputResult (execution task JUndefined (freshEnv [''total'' \<mapsto> JNum 7]) None None 0) = None
   \<and> inputParameters (execution task JUndefined (freshEnv [''total'' \<mapsto> JNum 7]) None None 0)
       = Some [amountParam]
   \<and> fst (getInput (execution task JUndefined (freshEnv [''total'' \<mapsto> JNum 7]) None None 0) 0)
       = \<lparr>addr = 0, props = [''amount'' \<mapsto> JNum 7]\<rparr>
   \<and> fst (getInput (fst (snd (getInput
              (execution task JUndefined (freshEnv [''total'' \<mapsto> JNum 7]) None None 0) 0))) 5)
       = \<lparr>addr = 0, props = [''amount'' \<mapsto> JNum 7]\<rparr>"
proof -
  let ?c = "execution task JUndefined (freshEnv [''total'' \<mapsto> JNum 7]) None None 0"
  have n: "inputResult ?c = None" by (simp add: execution_def)
  have p: "inputParameters ?c = Some [amountParam]"
    by (simp add: inputParameters_def execution_def task_def)
  note t = getInput_memo [of ?c 0, THEN conjunct2, THEN conjunct2, rule_format,
      of "[amountParam]", OF conjI [OF n p]]
  from t obtain r c' h' where
    g: "getInput ?c 0 = (r, c', h')" and m: "\<forall>h2. getInput c' h2 = (r, c', h2)"
    by (elim exE conjE) (rule that, assumption+)
  have r: "r = \<lparr>addr = 0, props = [''amount'' \<mapsto> JNum 7]\<rparr>"
    using g by (simp add: getInput_def inputParameters_def execution_def task_def amountParam_def
        split_def Let_def setProperty_def)
  show ?thesis using n p g m r by simp
qed

text \<open>
  First, no input parameters and an environment that builds its scope object anew on each
  call: the second \<^verbatim>\<open>getInput()\<close> returns another object than the first. Second, one
  declared input parameter, named \<^verbatim>\<open>__proto__\<close>: the returned object has no entry.
\<close>

theorem getInput_memo_counterexample:
  "inputParameters (execution gateway JUndefined (freshEnv Map.empty) None None 0) = None
   \<and> addr (fst (getInput (execution gateway JUndefined (freshEnv Map.empty) None None 0) 0)) = 0
   \<and> addr (fst (getInput
              (fst (snd (getInput (execution gateway JUndefined (freshEnv Map.empty) None None 0) 0)))
              (snd (snd (getInput (execution gateway JUndefined (freshEnv Map.empty) None None 0) 0)))))
       = 1
   \<and> inputParameters (execution protoTask JUndefined (freshEnv Map.empty) None None 0)
       = Some [protoParam]
   \<and> name protoParam = ''__proto__''
   \<and> props (fst (getInput (execution protoTask JUndefined (freshEnv Map.empty) None None 0) 0))
       = Map.empty"
  by (simp add: getInput_def inputParameters_def execution_def gateway_def protoTask_def
      protoParam_def split_def Let_def setProperty_def)

lemma reachesSetter_written:
  "reachesSetter p \<Longrightarrow> reachesSetter (if isObjectOrNull v then Prototype v else p) = keepsSetter v"
  by (cases v) simp_all

lemma assign_mergedScope:
  "fst (assign (Map.empty, ObjectPrototype) [Some e, Some i]) = mergedScope e i"
proof (rule ext)
  fix k
  show "fst (assign (Map.empty, ObjectPrototype) [Some e, Some i]) k = mergedScope e i k"
  proof (cases "k = ''__proto__''")
    case False
    then show ?thesis
      by (simp add: mergedScope_def assignFrom_lookup map_add_def split: option.splits)
  next
    case True
    show ?thesis
    proof (cases "e ''__proto__''")
      case None
      then show ?thesis using True
        by (simp add: mergedScope_def assignFrom_def Let_def setProperty_def restrict_map_def
            split: option.splits)
    next
      case (Some v)
      then show ?thesis using True reachesSetter_written [of ObjectPrototype v]
        by (cases "i ''__proto__''")
           (simp_all add: mergedScope_def assignFrom_def Let_def setProperty_def restrict_map_def
              map_add_def)
    qed
  qed
qed

lemma mergedScope_plain:
  "e ''__proto__'' = None \<Longrightarrow> mergedScope e i = (\<lambda>k. if k = ''__proto__'' then None else (e ++ i) k)"
  by (rule ext) (simp add: mergedScope_def)

lemma resolveOutput_lookup:
  "k \<noteq> ''__proto__'' \<Longrightarrow>
   fst (resolveOutput parms res scope acc) k
     = (fst acc ++ map_of (rev (map (\<lambda>p. (name p, getOutputValue p res scope)) parms))) k"
proof (induction parms arbitrary: acc)
  case Nil
  then show ?case by simp
next
  case (Cons p parms)
  let ?acc = "setProperty acc (name p) (getOutputValue p res scope)"
  let ?M = "map_of (rev (map (\<lambda>p. (name p, getOutputValue p res scope)) parms))"
  have "fst (resolveOutput (p # parms) res scope acc) k = (fst ?acc ++ ?M) k"
    using Cons.IH [OF Cons.prems, of ?acc] by simp
  also have "\<dots> = (fst acc ++ map_of (rev (map (\<lambda>p. (name p, getOutputValue p res scope))
                                          (p # parms)))) k"
    using Cons.prems
    by (simp add: map_add_def setProperty_lookup split: option.splits)
  finally show ?case .
qed

lemma resolveOutput_dom_upper:
  "dom (fst (resolveOutput parms res scope acc)) \<subseteq> dom (fst acc) \<union> name ` set parms"
proof (induction parms arbitrary: acc)
  case Nil
  then show ?case by simp
next
  case (Cons p parms)
  let ?acc = "setProperty acc (name p) (getOutputValue p res scope)"
  have ih: "dom (fst (resolveOutput parms res scope ?acc)) \<subseteq> dom (fst ?acc) \<union> name ` set parms"
    by (rule Cons.IH)
  have up: "dom (fst ?acc) \<subseteq> insert (name p) (dom (fst acc))"
    by (rule setProperty_dom_upper)
  have "dom (fst ?acc) \<union> name ` set parms \<subseteq> dom (fst acc) \<union> name ` set (p # parms)"
    using up by auto
  then show ?case using ih by (simp only: resolveOutput.simps)
qed

lemma resolveOutput_keeps:
  assumes "fst acc ''__proto__'' = None" "reachesSetter (snd acc)"
    and "\<forall>p\<in>set parms. name p = ''__proto__'' \<longrightarrow> keepsSetter (getOutputValue p res scope)"
  shows "fst (resolveOutput parms res scope acc) ''__proto__'' = None"
  using assms
proof (induction parms arbitrary: acc)
  case Nil
  then show ?case by simp
next
  case (Cons p parms)
  let ?v = "getOutputValue p res scope"
  let ?acc = "setProperty acc (name p) ?v"
  have k: "name p = ''__proto__'' \<longrightarrow> keepsSetter ?v" using Cons.prems(3) by simp
  have a: "fst ?acc ''__proto__'' = None \<and> reachesSetter (snd ?acc)"
    using setProperty_keeps [OF Cons.prems(1) Cons.prems(2) k] .
  have r: "\<forall>p\<in>set parms. name p = ''__proto__'' \<longrightarrow> keepsSetter (getOutputValue p res scope)"
    using Cons.prems(3) by simp
  have "fst (resolveOutput parms res scope ?acc) ''__proto__'' = None"
    using a r by (intro Cons.IH) simp_all
  then show ?case by simp
qed

lemma getInput_setResult:
  "fst (getInput (setResult c data) h) = fst (getInput c h)"
  by (simp add: getInput_def setResult_def inputParameters_def split_def Let_def
      split: option.splits)

text \<open>
  \<^bold>\<open>C5\<close> (as amended). After \<^verbatim>\<open>setResult(data)\<close>, \<^verbatim>\<open>getOutput()\<close> returns \<open>data\<close>
  itself when no output parameters are declared. When they are, it returns a mapping that has
  an entry for every declared output parameter name other than \<^verbatim>\<open>__proto__\<close> and for no
  undeclared name; the entry of a name is the \<^verbatim>\<open>getOutputValue\<close> of the last parameter
  declared with that name, on \<open>data\<close> and on the scope that merges the environment's scope
  with the resolved input, the resolved input winning on a shared name. A parameter named
  \<^verbatim>\<open>__proto__\<close> is written through the prototype setter and leaves no entry, as long as no
  such parameter resolves to \<^verbatim>\<open>null\<close> or to an object with an own \<^verbatim>\<open>__proto__\<close>. The
  scenario with one output parameter \<^verbatim>\<open>result\<close> reading the raw key \<^verbatim>\<open>r\<close> and
  \<^verbatim>\<open>setResult({r: 10})\<close> is checked after the theorem.
\<close>

theorem getOutput_resolves:
  "(outputParameters c = None \<longrightarrow> fst (getOutput (setResult c data) h) = data)
   \<and> (\<forall>parms scope.
        outputParameters c = Some parms
        \<and> scope = mergedScope
                    (props (fst (getVariablesAndServices (environment c) h)))
                    (props (fst (getInput c (snd (getVariablesAndServices (environment c) h)))))
        \<longrightarrow>
        (\<exists>m. fst (getOutput (setResult c data) h) = JObj m
           \<and> name ` set parms - {''__proto__''} \<subseteq> dom m
           \<and> dom m \<subseteq> name ` set parms
           \<and> (\<forall>k. k \<noteq> ''__proto__'' \<longrightarrow>
                 m k = map_of (rev (map (\<lambda>p. (name p, getOutputValue p data scope)) parms)) k)
           \<and> ((\<forall>p\<in>set parms. name p = ''__proto__'' \<longrightarrow> keepsSetter (getOutputValue p data scope))
                \<longrightarrow> m ''__proto__'' = None)))
   \<and> (\<forall>e i k. k \<noteq> ''__proto__'' \<longrightarrow> mergedScope e i k = (e ++ i) k)"
proof (intro conjI allI impI)
  assume "outputParameters c = None"
  then show "fst (getOutput (setResult c data) h) = data"
    by (simp add: getOutput_def setResult_def outputParameters_def)
next
  fix e i :: "string \<rightharpoonup> jsval" and k :: string
  assume "k \<noteq> ''__proto__''"
  then show "mergedScope e i k = (e ++ i) k" by (simp add: mergedScope_def)
next
  fix parms scope
  assume a: "outputParameters c = Some parms
        \<and> scope = mergedScope
                    (props (fst (getVariablesAndServices (environment c) h)))
                    (props (fst (getInput c (snd (getVariablesAndServices (environment c) h)))))"
  let ?m = "fst (resolveOutput parms data scope (Map.empty, ObjectPrototype))"
  let ?M = "map_of (rev (map (\<lambda>p. (name p, getOutputValue p data scope)) parms))"
  have p': "outputParameters (setResult c data) = Some parms"
    using a by (simp add: outputParameters_def setResult_def)
  have e: "environment (setResult c data) = environment c" "resultData (setResult c data) = data"
    by (simp_all add: setResult_def)
  have g: "fst (getOutput (setResult c data) h) = JObj ?m"
    using a
    by (simp add: getOutput_def p' e split_def Let_def getInput_setResult assign_mergedScope
        del: assign.simps)
  have v: "\<forall>k. k \<noteq> ''__proto__'' \<longrightarrow> ?m k = ?M k"
    by (simp add: resolveOutput_lookup)
  have up: "dom ?m \<subseteq> name ` set parms"
    using resolveOutput_dom_upper [of parms data scope "(Map.empty, ObjectPrototype)"] by simp
  have lo: "name ` set parms - {''__proto__''} \<subseteq> dom ?m"
  proof
    fix k assume k: "k \<in> name ` set parms - {''__proto__''}"
    then have "k \<in> fst ` set (rev (map (\<lambda>p. (name p, getOutputValue p data scope)) parms))"
      by force
    then have "k \<in> dom ?M" by (simp only: dom_map_of_conv_image_fst)
    then show "k \<in> dom ?m" using v k by (auto simp: domIff)
  qed
  have ks: "(\<forall>p\<in>set parms. name p = ''__proto__'' \<longrightarrow> keepsSetter (getOutputValue p data scope))
                \<longrightarrow> ?m ''__proto__'' = None"
    using resolveOutput_keeps [of "(Map.empty, ObjectPrototype)" parms data scope] by simp
  show "\<exists>m. fst (getOutput (setResult c data) h) = JObj m
           \<and> name ` set parms - {''__proto__''} \<subseteq> dom m
           \<and> dom m \<subseteq> name ` set parms
           \<and> (\<forall>k. k \<noteq> ''__proto__'' \<longrightarrow>
                 m k = map_of (rev (map (\<lambda>p. (name p, getOutputValue p data scope)) parms)) k)
           \<and> ((\<forall>p\<in>set parms. name p = ''__proto__'' \<longrightarrow> keepsSetter (getOutputValue p data scope))
                \<longrightarrow> m ''__proto__'' = None)"
    apply (rule exI [of _ ?m])
    apply (intro conjI)
        apply (fact g)
       apply (fact lo)
      apply (fact up)
     apply (fact v)
    apply (fact ks)
    done
qed

theorem getOutput_resolves_witness:
  "outputParameters (execution task JUndefined (freshEnv Map.empty) None None 0) = Some [resultParam]
   \<and> fst (getOutput (setResult (execution task JUndefined (freshEnv Map.empty) None None 0)
                       (JObj [''r'' \<mapsto> JNum 10])) 0)
       = JObj [''result'' \<mapsto> JNum 10]
   \<and> outputParameters (execution gateway JUndefined (freshEnv Map.empty) None None 0) = None
   \<and> fst (getOutput (setResult (execution gateway JUndefined (freshEnv Map.empty) None None 0)
                       (JObj [''r'' \<mapsto> JNum 10])) 0)
       = JObj [''r'' \<mapsto> JNum 10]"
proof -
  let ?c = "execution task JUndefined (freshEnv Map.empty) None None 0"
  let ?g = "execution gateway JUndefined (freshEnv Map.empty) None None 0"
  let ?d = "JObj [''r'' \<mapsto> JNum 10]"
  have p: "outputParameters ?c = Some [resultParam]"
    by (simp add: outputParameters_def execution_def task_def)
  have n: "outputParameters ?g = None"
    by (simp add: outputParameters_def execution_def gateway_def)
  note t = getOutput_resolves [of ?c ?d 0, THEN conjunct2, THEN conjunct1, rule_format,
      of "[resultParam]", OF conjI [OF p refl]]
  from t obtain m where m: "fst (getOutput (setResult ?c ?d) 0) = JObj m"
    and d: "dom m \<subseteq> name ` set [resultParam]"
    and v: "\<forall>k. k \<noteq> ''__proto__'' \<longrightarrow>
              m k = map_of (rev (map (\<lambda>p. (name p, getOutputValue p ?d
                      (mergedScope
                        (props (fst (getVariablesAndServices (environment ?c) 0)))
                        (props (fst (getInput ?c (snd (getVariablesAndServices (environment ?c) 0))))))))
                    [resultParam])) k"
    by (elim exE conjE) (rule that, assumption+)
  have "m = [''result'' \<mapsto> JNum 10]"
  proof (rule ext)
    fix k
    show "m k = [''result'' \<mapsto> JNum 10] k"
    proof (cases "k = ''result''")
      case True
      then show ?thesis using v [rule_format, of k] by (simp add: resultParam_def)
    next
      case False
      then have "k \<notin> dom m" using d by (auto simp: resultParam_def)
      then show ?thesis using False by (simp add: domIff)
    qed
  qed
  then have a: "fst (getOutput (setResult ?c ?d) 0) = JObj [''result'' \<mapsto> JNum 10]"
    using m by simp
  from getOutput_resolves [of ?g ?d 0] n
  have b: "fst (getOutput (setResult ?g ?d) 0) = ?d"
    by blast
  show ?thesis using p n a b by simp
qed

text \<open>
  One declared output parameter, named \<^verbatim>\<open>__proto__\<close>: the returned mapping has no entry.
\<close>

theorem getOutput_resolves_counterexample:
  "outputParameters (execution protoTask JUndefined (freshEnv Map.empty) None None 0)
     = Some [protoParam]
   \<and> name protoParam = ''__proto__''
   \<and> fst (getOutput (setResult (execution protoTask JUndefined (freshEnv Map.empty) None None 0)
                       (JObj [''r'' \<mapsto> JNum 10])) 0)
       = JObj Map.empty"
  by (simp add: getOutput_def outputParameters_def setResult_def execution_def protoTask_def
      protoParam_def split_def Let_def setProperty_def)

lemma getInput_ctx: "\<exists>ir. fst (snd (getInput c h)) = c\<lparr>inputResult := ir\<rparr>"
proof (cases "inputResult c")
  case None
  show ?thesis
  proof (cases "inputParameters c")
    case None
    have "fst (snd (getInput c h)) = c\<lparr>inputResult := inputResult c\<rparr>"
      using None \<open>inputResult c = None\<close> by (simp add: getInput_def split_def Let_def)
    then show ?thesis by blast
  next
    case (Some parms)
    then show ?thesis using None by (simp add: getInput_def split_def Let_def) blast
  qed
next
  case (Some r)
  have "fst (snd (getInput c h)) = c\<lparr>inputResult := inputResult c\<rparr>"
    using Some by (simp add: getInput_def)
  then show ?thesis by blast
qed

text \<open>
  \<^bold>\<open>C6.\<close> \<^verbatim>\<open>postpone(cb)\<close> returns the context it was called on, with the handles
  \<^verbatim>\<open>error\<close>, \<^verbatim>\<open>signal\<close> and \<^verbatim>\<open>complete\<close> installed (and, when the activity has a
  form, the form instance attached and the input resolved); nothing else has changed. One
  call of a handle makes exactly one call of \<open>cb\<close>: \<^verbatim>\<open>error(err)\<close> passes \<open>(err)\<close>,
  \<^verbatim>\<open>signal(input)\<close> passes \<open>(null, input)\<close>, \<^verbatim>\<open>complete(...values)\<close> passes
  \<open>(null, ...values)\<close>.
\<close>

theorem postpone_handles:
  "\<exists>e s k fi ir h'.
     postpone Form c cb h
       = (c\<lparr>inputResult := ir, ctx_form := fi,
            ctx_error := Some e, ctx_signal := Some s, ctx_complete := Some k\<rparr>, h')
     \<and> (\<forall>err tr. e err tr = tr @ [(cb, [err])])
     \<and> (\<forall>inp tr. s inp tr = tr @ [(cb, [JNull, inp])])
     \<and> (\<forall>args tr. k args tr = tr @ [(cb, JNull # args)])"
proof (cases "truthy (form (activity c))")
  case True
  obtain ir where ir: "fst (snd (getInput c h)) = c\<lparr>inputResult := ir\<rparr>"
    using getInput_ctx by blast
  show ?thesis
    apply (rule exI [of _ "\<lambda>err tr. tr @ [(cb, [err])]"])
    apply (rule exI [of _ "\<lambda>inp tr. tr @ [(cb, [JNull, inp])]"])
    apply (rule exI [of _ "\<lambda>args tr. tr @ [(cb, JNull # args)]"])
    apply (rule exI [of _ "Some (fst (getForm Form c h))"])
    apply (rule exI [of _ ir])
    apply (rule exI [of _ "snd (snd (getInput c h))"])
    using True ir by (simp add: postpone_def getForm_def split_def Let_def)
next
  case False
  show ?thesis
    apply (rule exI [of _ "\<lambda>err tr. tr @ [(cb, [err])]"])
    apply (rule exI [of _ "\<lambda>inp tr. tr @ [(cb, [JNull, inp])]"])
    apply (rule exI [of _ "\<lambda>args tr. tr @ [(cb, JNull # args)]"])
    apply (rule exI [of _ "ctx_form c"])
    apply (rule exI [of _ "inputResult c"])
    apply (rule exI [of _ h])
    using False by (simp add: postpone_def)
qed

theorem postpone_handles_witness:
  "\<exists>s. ctx_signal (fst (postpone (\<lambda>fd inp env. fd)
                     (execution task JUndefined (freshEnv Map.empty) None None 0) 9 0)) = Some s
      \<and> s (JObj [''value'' \<mapsto> JNum 42]) [] = [(9, [JNull, JObj [''value'' \<mapsto> JNum 42]])]"
  using postpone_handles [of "\<lambda>fd inp env. fd"
      "execution task JUndefined (freshEnv Map.empty) None None 0" 9 0]
  by auto

lemma assign2_lookup:
  "k \<noteq> ''__proto__'' \<Longrightarrow> fst (assign t [a, b]) k = (fst t ++ orEmpty a ++ orEmpty b) k"
  by (cases a; cases b)
     (simp_all add: orEmpty_def assignFrom_lookup map_add_def split: option.splits)

lemma assign2_plain:
  "orEmpty a ''__proto__'' = None \<Longrightarrow> orEmpty b ''__proto__'' = None \<Longrightarrow>
   fst (assign t [a, b]) = fst t ++ orEmpty a ++ orEmpty b"
  by (cases a; cases b) (simp_all add: orEmpty_def assignFrom_no_proto)

lemma flowIds_Some: "flowIds fl (map Some ys) = Inr (map (\<lambda>f. JStr (flow_id (fl f))) ys)"
  by (induction ys) simp_all

lemma flowIds_None: "None \<in> set xs \<Longrightarrow> flowIds fl xs = Inl TypeError"
proof (induction xs)
  case Nil
  then show ?case by simp
next
  case (Cons x xs)
  then show ?case by (cases x) (auto split: sum.splits)
qed

lemma getPendingOutbound_inputResult:
  "getPendingOutbound fl (c\<lparr>inputResult := ir\<rparr>)
     = (fst (getPendingOutbound fl c), (snd (getPendingOutbound fl c))\<lparr>inputResult := ir\<rparr>)"
  by (cases "pendingOutbound c") (simp_all add: getPendingOutbound_def Let_def)

lemma getPendingOutbound_same_inputResult:
  "(snd (getPendingOutbound fl c))\<lparr>inputResult := inputResult c\<rparr> = snd (getPendingOutbound fl c)"
  by (cases "pendingOutbound c") (simp_all add: getPendingOutbound_def Let_def)

lemma all_Some: "None \<notin> set xs \<Longrightarrow> \<exists>ys. xs = map Some ys"
  unfolding ex_map_conv by (metis not_None_eq)

lemma pending_defined:
  assumes "\<not> (\<exists>xs. pendingOutbound c = Some xs \<and> None \<in> set xs)"
  shows "\<exists>ordering. fst (getPendingOutbound fl c) = map Some ordering"
proof (cases "pendingOutbound c")
  case None
  then show ?thesis by (simp add: getPendingOutbound_fresh)
next
  case (Some xs)
  then show ?thesis using assms all_Some [of xs] by (simp add: getPendingOutbound_cached)
qed

lemma getState_eq:
  "\<exists>ir h1.
     getState Form fl c override h =
       (let state1 =
              ((case activity_getState (activity c) of Some s \<Rightarrow> s | None \<Rightarrow> Map.empty)
               ++ (if truthy (form (activity c))
                   then [''form'' \<mapsto> Form (getProp (form (activity c)) ''formData'')
                                        (fst (getInput c h)) (environment c)]
                   else Map.empty),
               ObjectPrototype)
        in if pendingFork c
           then (case flowIds fl (fst (getPendingOutbound fl c)) of
                   Inl e \<Rightarrow> (Inl e, (snd (getPendingOutbound fl c))\<lparr>inputResult := ir\<rparr>, h1)
                 | Inr ids \<Rightarrow>
                     (Inr (fst (assign (setProperty state1 ''pendingOutbound'' (JArr ids))
                                  [override, savedState c])),
                      (snd (getPendingOutbound fl c))\<lparr>inputResult := ir\<rparr>, h1))
           else (Inr (fst (assign state1 [override, savedState c])), c\<lparr>inputResult := ir\<rparr>, h1))"
proof (cases "truthy (form (activity c))")
  case True
  obtain ir where ir: "fst (snd (getInput c h)) = c\<lparr>inputResult := ir\<rparr>"
    using getInput_ctx by blast
  show ?thesis
    apply (rule exI [of _ ir])
    apply (rule exI [of _ "snd (snd (getInput c h))"])
    using True ir
    by (simp add: getState_def getForm_def split_def Let_def setProperty_def
        getPendingOutbound_inputResult del: assign.simps split: sum.splits)
next
  case False
  show ?thesis
    apply (rule exI [of _ "inputResult c"])
    apply (rule exI [of _ h])
    using False
    by (simp add: getState_def split_def Let_def getPendingOutbound_same_inputResult
        del: assign.simps split: sum.splits)
qed


text \<open>
  \<^bold>\<open>C7\<close> (as amended). When the activity has more than one outbound edge and the context's
  pending-outbound list holds an \<^verbatim>\<open>undefined\<close> entry (left by \<^verbatim>\<open>applyState\<close> for an
  unmatched identifier), \<^verbatim>\<open>getState(override)\<close> raises a TypeError. On every other context
  it returns a mapping that is, at every name other than \<^verbatim>\<open>__proto__\<close>, the merge, later
  parts winning, of: the activity's own \<^verbatim>\<open>getState()\<close> result (empty if the hook is
  absent); a \<^verbatim>\<open>form\<close> entry, the Form instance built from the form's \<^verbatim>\<open>formData\<close> and
  initialised with the resolved input and the environment, only if the activity declares a
  form; a \<^verbatim>\<open>pendingOutbound\<close> entry with the identifiers of the pending outbound edges, in
  order, only if the activity has more than one outbound edge; the override; the state stashed
  by \<^verbatim>\<open>setState\<close>. It is that merge at every name when neither the override nor the stashed
  state has an own property \<^verbatim>\<open>__proto__\<close>. The instance after the theorem is
  \<^verbatim>\<open>setState({x: 1})\<close> followed by \<^verbatim>\<open>getState({y: 2})\<close> on an activity whose own
  state has \<^verbatim>\<open>x: 5\<close>.
\<close>

theorem getState_merge:
  "(pendingFork c \<and> (\<exists>xs. pendingOutbound c = Some xs \<and> None \<in> set xs)
      \<longrightarrow> fst (getState Form fl c override h) = Inl TypeError)
   \<and> (\<not> (pendingFork c \<and> (\<exists>xs. pendingOutbound c = Some xs \<and> None \<in> set xs))
      \<longrightarrow> (\<exists>st ordering merged.
             fst (getState Form fl c override h) = Inr st
           \<and> (pendingFork c \<longrightarrow> fst (getPendingOutbound fl c) = map Some ordering)
           \<and> merged =
               (case activity_getState (activity c) of Some s \<Rightarrow> s | None \<Rightarrow> Map.empty)
               ++ (if truthy (form (activity c))
                   then [''form'' \<mapsto> Form (getProp (form (activity c)) ''formData'')
                                        (fst (getInput c h)) (environment c)]
                   else Map.empty)
               ++ (if pendingFork c
                   then [''pendingOutbound'' \<mapsto> JArr (map (\<lambda>f. JStr (flow_id (fl f))) ordering)]
                   else Map.empty)
               ++ orEmpty override
               ++ orEmpty (savedState c)
           \<and> (\<forall>k. k \<noteq> ''__proto__'' \<longrightarrow> st k = merged k)
           \<and> (orEmpty override ''__proto__'' = None \<and> orEmpty (savedState c) ''__proto__'' = None
                \<longrightarrow> st = merged)))"
proof -
  let ?own = "case activity_getState (activity c) of Some s \<Rightarrow> s | None \<Rightarrow> Map.empty"
  let ?form = "if truthy (form (activity c))
               then [''form'' \<mapsto> Form (getProp (form (activity c)) ''formData'')
                                    (fst (getInput c h)) (environment c)]
               else Map.empty"
  let ?state1 = "(?own ++ ?form, ObjectPrototype)"
  obtain ir h1 where g:
    "getState Form fl c override h =
       (if pendingFork c
        then (case flowIds fl (fst (getPendingOutbound fl c)) of
                Inl e \<Rightarrow> (Inl e, (snd (getPendingOutbound fl c))\<lparr>inputResult := ir\<rparr>, h1)
              | Inr ids \<Rightarrow>
                  (Inr (fst (assign (setProperty ?state1 ''pendingOutbound'' (JArr ids))
                               [override, savedState c])),
                   (snd (getPendingOutbound fl c))\<lparr>inputResult := ir\<rparr>, h1))
        else (Inr (fst (assign ?state1 [override, savedState c])), c\<lparr>inputResult := ir\<rparr>, h1))"
    using getState_eq [of Form fl c override h] unfolding Let_def by blast
  have raise: "fst (getState Form fl c override h) = Inl TypeError"
    if "pendingFork c \<and> (\<exists>xs. pendingOutbound c = Some xs \<and> None \<in> set xs)"
  proof -
    from that obtain xs where xs: "pendingOutbound c = Some xs" "None \<in> set xs" by blast
    have "flowIds fl (fst (getPendingOutbound fl c)) = Inl TypeError"
      using xs by (simp add: getPendingOutbound_cached flowIds_None)
    then show ?thesis using that g by simp
  qed
  have ok: "\<exists>st ordering merged.
             fst (getState Form fl c override h) = Inr st
           \<and> (pendingFork c \<longrightarrow> fst (getPendingOutbound fl c) = map Some ordering)
           \<and> merged = ?own ++ ?form
               ++ (if pendingFork c
                   then [''pendingOutbound'' \<mapsto> JArr (map (\<lambda>f. JStr (flow_id (fl f))) ordering)]
                   else Map.empty)
               ++ orEmpty override
               ++ orEmpty (savedState c)
           \<and> (\<forall>k. k \<noteq> ''__proto__'' \<longrightarrow> st k = merged k)
           \<and> (orEmpty override ''__proto__'' = None \<and> orEmpty (savedState c) ''__proto__'' = None
                \<longrightarrow> st = merged)"
    if n: "\<not> (pendingFork c \<and> (\<exists>xs. pendingOutbound c = Some xs \<and> None \<in> set xs))"
  proof (cases "pendingFork c")
    case True
    then have "\<not> (\<exists>xs. pendingOutbound c = Some xs \<and> None \<in> set xs)" using n by simp
    then obtain ordering where o: "fst (getPendingOutbound fl c) = map Some ordering"
      using pending_defined by blast
    let ?ids = "JArr (map (\<lambda>f. JStr (flow_id (fl f))) ordering)"
    let ?state2 = "(?own ++ ?form ++ [''pendingOutbound'' \<mapsto> ?ids], ObjectPrototype)"
    let ?st = "fst (assign ?state2 [override, savedState c])"
    have s2: "setProperty ?state1 ''pendingOutbound'' ?ids = ?state2"
      by (simp add: setProperty_def)
    have f: "fst (getState Form fl c override h) = Inr ?st"
      using g True o s2 by (simp add: flowIds_Some del: assign.simps)
    have l: "\<forall>k. k \<noteq> ''__proto__'' \<longrightarrow>
               ?st k = (?own ++ ?form ++ [''pendingOutbound'' \<mapsto> ?ids]
                         ++ orEmpty override ++ orEmpty (savedState c)) k"
      using assign2_lookup [of _ ?state2 override "savedState c"] by simp
    have p: "orEmpty override ''__proto__'' = None \<and> orEmpty (savedState c) ''__proto__'' = None
               \<longrightarrow> ?st = ?own ++ ?form ++ [''pendingOutbound'' \<mapsto> ?ids]
                         ++ orEmpty override ++ orEmpty (savedState c)"
      using assign2_plain [of override "savedState c" ?state2] by simp
    show ?thesis
      apply (rule exI [of _ ?st])
      apply (rule exI [of _ ordering])
      apply (rule exI [of _ "?own ++ ?form ++ [''pendingOutbound'' \<mapsto> ?ids]
                         ++ orEmpty override ++ orEmpty (savedState c)"])
      using True f o l p by simp
  next
    case False
    let ?st = "fst (assign ?state1 [override, savedState c])"
    have f: "fst (getState Form fl c override h) = Inr ?st"
      using g False by simp
    have l: "\<forall>k. k \<noteq> ''__proto__'' \<longrightarrow>
               ?st k = (?own ++ ?form ++ orEmpty override ++ orEmpty (savedState c)) k"
      using assign2_lookup [of _ ?state1 override "savedState c"] by simp
    have p: "orEmpty override ''__proto__'' = None \<and> orEmpty (savedState c) ''__proto__'' = None
               \<longrightarrow> ?st = ?own ++ ?form ++ orEmpty override ++ orEmpty (savedState c)"
      using assign2_plain [of override "savedState c" ?state1] by simp
    show ?thesis
      apply (rule exI [of _ ?st])
      apply (rule exI [of _ "[]"])
      apply (rule exI [of _ "?own ++ ?form ++ orEmpty override ++ orEmpty (savedState c)"])
      using False f l p by simp
  qed
  show ?thesis using raise ok by blast
qed


theorem getState_merge_witness:
  "pendingOutbound (setState (execution task JUndefined (freshEnv Map.empty) None None 0)
                      (Some [''x'' \<mapsto> JNum 1])) = None
   \<and> (\<exists>st. fst (getState (\<lambda>fd inp env. fd) sampleFlows
                  (setState (execution task JUndefined (freshEnv Map.empty) None None 0)
                     (Some [''x'' \<mapsto> JNum 1]))
                  (Some [''y'' \<mapsto> JNum 2]) 0) = Inr st
          \<and> st ''x'' = Some (JNum 1) \<and> st ''y'' = Some (JNum 2)
          \<and> st ''entered'' = Some (JBool True)
          \<and> st ''pendingOutbound'' = Some (JArr [JStr ''A'', JStr ''B'']))"
proof -
  let ?c = "setState (execution task JUndefined (freshEnv Map.empty) None None 0)
              (Some [''x'' \<mapsto> JNum 1])"
  have n: "pendingOutbound ?c = None" by (simp add: setState_def execution_def)
  then have h: "\<not> (pendingFork ?c \<and> (\<exists>xs. pendingOutbound ?c = Some xs \<and> None \<in> set xs))"
    by simp
  have p: "fst (getPendingOutbound sampleFlows ?c) = map Some [0, 1]"
    by (simp add: getPendingOutbound_def setState_def execution_def task_def sampleFlows_def
        Let_def splice1_def)
  have f: "pendingFork ?c" "\<not> truthy (form (activity ?c))" "savedState ?c = Some [''x'' \<mapsto> JNum 1]"
    "activity_getState (activity ?c) = Some [''x'' \<mapsto> JNum 5, ''entered'' \<mapsto> JBool True]"
    by (simp_all add: pendingFork_def setState_def execution_def task_def)
  note t = getState_merge [where c = ?c and fl = sampleFlows and Form = "\<lambda>fd inp env. fd"
      and override = "Some [''y'' \<mapsto> JNum 2]" and h = 0, THEN conjunct2, rule_format, OF h]
  from t obtain st ordering merged where
    g: "fst (getState (\<lambda>fd inp env. fd) sampleFlows ?c (Some [''y'' \<mapsto> JNum 2]) 0) = Inr st"
    and o: "pendingFork ?c \<longrightarrow> fst (getPendingOutbound sampleFlows ?c) = map Some ordering"
    and m: "merged =
               (case activity_getState (activity ?c) of Some s \<Rightarrow> s | None \<Rightarrow> Map.empty)
               ++ (if truthy (form (activity ?c))
                   then [''form'' \<mapsto> (\<lambda>fd inp env. fd) (getProp (form (activity ?c)) ''formData'')
                                        (fst (getInput ?c 0)) (environment ?c)]
                   else Map.empty)
               ++ (if pendingFork ?c
                   then [''pendingOutbound'' \<mapsto>
                           JArr (map (\<lambda>f. JStr (flow_id (sampleFlows f))) ordering)]
                   else Map.empty)
               ++ orEmpty (Some [''y'' \<mapsto> JNum 2])
               ++ orEmpty (savedState ?c)"
    and l: "\<forall>k. k \<noteq> ''__proto__'' \<longrightarrow> st k = merged k"
    by (elim exE conjE) (rule that, assumption+)
  have "map Some ordering = map Some [0, 1]" using o p f(1) by (simp only:)
  then have ord: "ordering = [0, 1]" by (rule map_injective) simp
  have "st ''x'' = Some (JNum 1)" "st ''y'' = Some (JNum 2)" "st ''entered'' = Some (JBool True)"
    "st ''pendingOutbound'' = Some (JArr [JStr ''A'', JStr ''B''])"
    using l m f ord by (simp_all add: orEmpty_def sampleFlows_def)
  then show ?thesis using n g by simp
qed

text \<open>
  First, a context restored with one matching and one unknown identifier: \<^verbatim>\<open>getState()\<close>
  raises a TypeError. Second, a stashed state with an own property \<^verbatim>\<open>__proto__\<close>: the
  snapshot has no such entry.
\<close>

theorem getState_merge_counterexample:
  "applyState sampleFlows (execution task JUndefined (freshEnv Map.empty) None None 0)
     [''pendingOutbound'' \<mapsto> JArr [JStr ''A'', JStr ''zzz'']]
   = (None, (execution task JUndefined (freshEnv Map.empty) None None 0)
              \<lparr>pendingOutbound := Some [Some 0, None]\<rparr>)
   \<and> fst (getState (\<lambda>fd inp env. fd) sampleFlows
            ((execution task JUndefined (freshEnv Map.empty) None None 0)
               \<lparr>pendingOutbound := Some [Some 0, None]\<rparr>) (Some [''y'' \<mapsto> JNum 2]) 0)
       = Inl TypeError
   \<and> savedState (setState (execution protoTask JUndefined (freshEnv Map.empty) None None 0)
                   (Some [''__proto__'' \<mapsto> JNum 1]))
       = Some [''__proto__'' \<mapsto> JNum 1]
   \<and> fst (getState (\<lambda>fd inp env. fd) sampleFlows
            (setState (execution protoTask JUndefined (freshEnv Map.empty) None None 0)
               (Some [''__proto__'' \<mapsto> JNum 1])) None 0)
       = Inr Map.empty"
  by (simp add: applyState_def stateProp_def mapFind_def task_def protoTask_def execution_def
      sampleFlows_def getState_def pendingFork_def getPendingOutbound_def Let_def setState_def
      assignFrom_def setProperty_def restrict_map_def fun_eq_iff)

lemma find_resolves: "resolves fl edges ident (find (\<lambda>f. JStr (flow_id (fl f)) = ident) edges)"
proof (cases "find (\<lambda>f. JStr (flow_id (fl f)) = ident) edges")
  case None
  then have "\<forall>f\<in>set edges. JStr (flow_id (fl f)) \<noteq> ident"
    by (simp add: find_None_iff)
  then show ?thesis unfolding resolves_def None by simp
next
  case (Some f)
  then obtain i where i: "i < length edges" "JStr (flow_id (fl (edges ! i))) = ident"
    "f = edges ! i" "\<forall>j<i. JStr (flow_id (fl (edges ! j))) \<noteq> ident"
    unfolding find_Some_iff by blast
  have "edges = take i edges @ f # drop (Suc i) edges"
    using i by (simp add: id_take_nth_drop)
  moreover have "\<forall>g\<in>set (take i edges). JStr (flow_id (fl g)) \<noteq> ident"
    using i by (auto simp: in_set_conv_nth)
  ultimately show ?thesis using i unfolding resolves_def Some by simp blast
qed

lemma mapFind_resolves:
  "mapFind fl (Some edges) (JArr ids)
     = Inr (map (\<lambda>i. find (\<lambda>f. JStr (flow_id (fl f)) = i) edges) ids)"
  by (simp add: mapFind_def)

lemma map_find_resolves:
  "list_all2 (resolves fl edges) ids (map (\<lambda>i. find (\<lambda>f. JStr (flow_id (fl f)) = i) edges) ids)"
  by (simp add: list_all2_conv_all_nth find_resolves)

lemma find_same_id:
  "f \<in> set out \<Longrightarrow>
   \<exists>z. find (\<lambda>g. flow_id (fl g) = flow_id (fl f)) out = Some z \<and> flow_id (fl z) = flow_id (fl f)"
  by (induction out) auto

lemma restore_ids:
  "set ord \<subseteq> set out \<Longrightarrow>
   \<exists>ys. map (\<lambda>i. find (\<lambda>g. JStr (flow_id (fl g)) = i) out) (map (\<lambda>f. JStr (flow_id (fl f))) ord)
          = map Some ys
      \<and> map (\<lambda>g. flow_id (fl g)) ys = map (\<lambda>g. flow_id (fl g)) ord"
proof (induction ord)
  case Nil
  then show ?case by simp
next
  case (Cons f ord)
  then obtain ys where ys:
    "map (\<lambda>i. find (\<lambda>g. JStr (flow_id (fl g)) = i) out) (map (\<lambda>f. JStr (flow_id (fl f))) ord)
       = map Some ys"
    "map (\<lambda>g. flow_id (fl g)) ys = map (\<lambda>g. flow_id (fl g)) ord"
    by auto
  have "f \<in> set out" using Cons.prems by simp
  from find_same_id [OF this, of fl] obtain z where z:
    "find (\<lambda>g. flow_id (fl g) = flow_id (fl f)) out = Some z" "flow_id (fl z) = flow_id (fl f)"
    by blast
  have "map (\<lambda>i. find (\<lambda>g. JStr (flow_id (fl g)) = i) out)
          (map (\<lambda>f. JStr (flow_id (fl f))) (f # ord)) = map Some (z # ys)"
    using ys(1) z(1) by simp
  moreover have "map (\<lambda>g. flow_id (fl g)) (z # ys) = map (\<lambda>g. flow_id (fl g)) (f # ord)"
    using ys(2) z(2) by simp
  ultimately show ?case by blast
qed

lemma pendingEdges_ordering:
  assumes "pendingEdges c"
  shows "\<exists>ordering. fst (getPendingOutbound fl c) = map Some ordering
           \<and> set ordering \<subseteq> set (outbound (activity c))"
proof (cases "pendingOutbound c")
  case None
  have "set (defaultLast fl (outbound (activity c))) \<subseteq> set (outbound (activity c))"
    using defaultLast_mset [of fl "outbound (activity c)"] by (metis set_mset_mset subset_refl)
  then show ?thesis using None by (simp add: getPendingOutbound_fresh)
next
  case (Some xs)
  have a: "\<forall>e\<in>set xs. \<exists>f. e = Some f \<and> f \<in> set (outbound (activity c))"
    using assms Some by (auto simp: pendingEdges_def list_all_iff split: option.splits)
  then have "\<forall>e\<in>set xs. \<exists>f. e = Some f" by blast
  then obtain ys where ys: "xs = map Some ys" unfolding ex_map_conv [symmetric] by blast
  have "set ys \<subseteq> set (outbound (activity c))" using a ys by auto
  then show ?thesis using Some ys by (simp add: getPendingOutbound_cached)
qed

lemma pendingEdges_defined:
  "pendingEdges c \<Longrightarrow> \<not> (\<exists>xs. pendingOutbound c = Some xs \<and> None \<in> set xs)"
  by (auto simp: pendingEdges_def list_all_iff split: option.splits)

lemma mapFind_Inr_iff:
  "(\<exists>r. mapFind fl edges v = Inr r)
     \<longleftrightarrow> (\<exists>ids. v = JArr ids \<and> (ids = [] \<or> edges \<noteq> None))"
  by (cases v; cases edges) (auto simp: mapFind_def)

lemma mapFind_error: "mapFind fl edges v = Inl e \<Longrightarrow> e = TypeError"
  by (cases e) simp

lemma restorable_iff:
  "restorable edges v \<longleftrightarrow>
     \<not> truthy v \<or> (\<exists>ids. v = JArr ids \<and> (ids = [] \<or> edges \<noteq> None))"
  by (cases v) (auto simp: restorable_def)

lemma applyState_restores:
  assumes "stateProp st ''pendingOutbound'' = JArr ids"
    and "restorable (inbound (activity c)) (stateProp st ''pendingInbound'')"
  shows "\<exists>c'. applyState fl c st = (None, c') \<and> activity c' = activity c
           \<and> pendingOutbound c'
                = Some (map (\<lambda>i. find (\<lambda>g. JStr (flow_id (fl g)) = i) (outbound (activity c))) ids)"
proof (cases "truthy (stateProp st ''pendingInbound'')")
  case False
  then show ?thesis using assms(1)
    by (simp add: applyState_def Let_def mapFind_resolves)
next
  case True
  then obtain r where "mapFind fl (inbound (activity c)) (stateProp st ''pendingInbound'') = Inr r"
    using assms(2) mapFind_Inr_iff [of fl "inbound (activity c)" "stateProp st ''pendingInbound''"]
    unfolding restorable_iff by blast
  then show ?thesis using True assms(1)
    by (simp add: applyState_def Let_def mapFind_resolves)
qed

lemma applyState_raises:
  assumes "\<not> restorable (inbound (activity c)) (stateProp st ''pendingInbound'')"
  shows "applyState fl c st = (Some TypeError, c)"
proof -
  have t: "truthy (stateProp st ''pendingInbound'')" using assms unfolding restorable_iff by blast
  have "\<not> (\<exists>r. mapFind fl (inbound (activity c)) (stateProp st ''pendingInbound'') = Inr r)"
    using assms mapFind_Inr_iff [of fl "inbound (activity c)" "stateProp st ''pendingInbound''"]
    unfolding restorable_iff by blast
  then obtain e where "mapFind fl (inbound (activity c)) (stateProp st ''pendingInbound'') = Inl e"
    by (cases "mapFind fl (inbound (activity c)) (stateProp st ''pendingInbound'')") auto
  then show ?thesis using t
    by (cases e) (simp add: applyState_def Let_def)
qed

text \<open>
  Every context the module can produce has a pending-outbound list within the edges of its
  activity: the constructor establishes this and every method keeps it. The hypothesis
  \<open>pendingEdges\<close> of the round trip below therefore leaves out, among these contexts, only
  those with an \<^verbatim>\<open>undefined\<close> entry.
\<close>

lemma pendingWithinEdges_same:
  "pendingOutbound c' = pendingOutbound c \<Longrightarrow> activity c' = activity c \<Longrightarrow>
   pendingWithinEdges c' = pendingWithinEdges c"
  by (simp add: pendingWithinEdges_def cong: option.case_cong)

lemma pendingEdges_iff:
  "pendingEdges c \<longleftrightarrow>
     pendingWithinEdges c \<and> \<not> (\<exists>xs. pendingOutbound c = Some xs \<and> None \<in> set xs)"
proof (cases "pendingOutbound c")
  case None
  then show ?thesis by (simp add: pendingEdges_def pendingWithinEdges_def)
next
  case (Some xs)
  have "list_all (\<lambda>e. case e of None \<Rightarrow> False | Some f \<Rightarrow> P f) xs
          \<longleftrightarrow> list_all (\<lambda>e. case e of None \<Rightarrow> True | Some f \<Rightarrow> P f) xs \<and> None \<notin> set xs"
    for P :: "ref \<Rightarrow> bool"
    by (induction xs) (auto split: option.splits)
  then show ?thesis using Some by (simp add: pendingEdges_def pendingWithinEdges_def)
qed

lemma pendingWithinEdges_execution:
  "pendingWithinEdges (execution act msg env inb rootf scaled)"
  by (simp add: pendingWithinEdges_def execution_def)

lemma pendingWithinEdges_getIteration: "pendingWithinEdges (getIteration c lm scaled)"
  by (simp add: getIteration_def Let_def pendingWithinEdges_execution)

lemma pendingWithinEdges_setState:
  "pendingWithinEdges c \<Longrightarrow> pendingWithinEdges (setState c s)"
  using pendingWithinEdges_same [of "setState c s" c] by (simp add: setState_def)

lemma pendingWithinEdges_setResult:
  "pendingWithinEdges c \<Longrightarrow> pendingWithinEdges (setResult c d)"
  using pendingWithinEdges_same [of "setResult c d" c] by (simp add: setResult_def)

lemma pendingWithinEdges_stop: "pendingWithinEdges c \<Longrightarrow> pendingWithinEdges (stop c)"
  using pendingWithinEdges_same [of "stop c" c] by (simp add: stop_def)

lemma pendingWithinEdges_getPendingInbound:
  "pendingWithinEdges c \<Longrightarrow> pendingWithinEdges (snd (getPendingInbound c))"
proof -
  have "pendingOutbound (snd (getPendingInbound c)) = pendingOutbound c
        \<and> activity (snd (getPendingInbound c)) = activity c"
    by (simp add: getPendingInbound_def Let_def split: option.splits)
  then show "pendingWithinEdges c \<Longrightarrow> pendingWithinEdges (snd (getPendingInbound c))"
    using pendingWithinEdges_same by blast
qed

lemma pendingWithinEdges_getPendingOutbound:
  assumes "pendingWithinEdges c"
  shows "pendingWithinEdges (snd (getPendingOutbound fl c))"
proof (cases "pendingOutbound c")
  case None
  have "set (defaultLast fl (outbound (activity c))) \<subseteq> set (outbound (activity c))"
    using defaultLast_mset [of fl "outbound (activity c)"] by (metis set_mset_mset subset_refl)
  then have "list_all (\<lambda>e. case e of None \<Rightarrow> True
                              | Some f \<Rightarrow> f \<in> set (outbound (activity c)))
               (map Some (defaultLast fl (outbound (activity c))))"
    by (auto simp: list_all_iff)
  then show ?thesis using None
    by (simp add: getPendingOutbound_fresh pendingWithinEdges_def)
next
  case (Some xs)
  then show ?thesis using assms by (simp add: getPendingOutbound_cached)
qed

lemma pendingWithinEdges_getInput:
  "pendingWithinEdges c \<Longrightarrow> pendingWithinEdges (fst (snd (getInput c h)))"
proof -
  assume a: "pendingWithinEdges c"
  obtain ir where "fst (snd (getInput c h)) = c\<lparr>inputResult := ir\<rparr>"
    using getInput_ctx by blast
  then show ?thesis using a pendingWithinEdges_same [of "c\<lparr>inputResult := ir\<rparr>" c] by simp
qed

lemma pendingWithinEdges_getOutput:
  "pendingWithinEdges c \<Longrightarrow> pendingWithinEdges (fst (snd (getOutput c h)))"
  using pendingWithinEdges_getInput
  by (cases "outputParameters c") (simp_all add: getOutput_def split_def Let_def)

lemma pendingWithinEdges_postpone:
  "pendingWithinEdges c \<Longrightarrow> pendingWithinEdges (fst (postpone Form c cb h))"
proof -
  assume a: "pendingWithinEdges c"
  have "pendingOutbound (fst (postpone Form c cb h)) = pendingOutbound (fst (snd (getInput c h)))
        \<and> activity (fst (postpone Form c cb h)) = activity (fst (snd (getInput c h)))"
  proof -
    obtain ir where "fst (snd (getInput c h)) = c\<lparr>inputResult := ir\<rparr>"
      using getInput_ctx by blast
    then show ?thesis by (simp add: postpone_def getForm_def split_def Let_def)
  qed
  then show ?thesis
    using pendingWithinEdges_getInput [OF a, of h] pendingWithinEdges_same by blast
qed

lemma find_within: "find P xs = Some x \<Longrightarrow> x \<in> set xs"
  by (induction xs) (auto split: if_splits)

lemma mapFind_within:
  "mapFind fl (Some es) v = Inr r \<Longrightarrow>
   list_all (\<lambda>e. case e of None \<Rightarrow> True | Some f \<Rightarrow> f \<in> set es) r"
  by (cases v) (auto simp: mapFind_def list_all_iff find_within split: if_splits option.splits)

lemma pendingWithinEdges_applyState:
  assumes "pendingWithinEdges c"
  shows "pendingWithinEdges (snd (applyState fl c st))"
proof -
  have i: "pendingWithinEdges (c\<lparr>pendingInbound := r\<rparr>)" for r
    using assms pendingWithinEdges_same [of "c\<lparr>pendingInbound := r\<rparr>" c] by simp
  have o: "pendingWithinEdges (c'\<lparr>pendingOutbound := Some r\<rparr>)"
    if "mapFind fl (Some (outbound (activity c'))) v = Inr r" for c' v r
    using mapFind_within [OF that] by (simp add: pendingWithinEdges_def)
  show ?thesis
    using assms i o
    by (auto simp: applyState_def Let_def split: sum.splits)
qed

lemma pendingWithinEdges_getState:
  assumes "pendingWithinEdges c"
  shows "pendingWithinEdges (fst (snd (getState Form fl c ov h)))"
proof -
  have "\<exists>ir. fst (snd (getState Form fl c ov h))
           = (if pendingFork c then (snd (getPendingOutbound fl c))\<lparr>inputResult := ir\<rparr>
              else c\<lparr>inputResult := ir\<rparr>)"
    using getState_eq [of Form fl c ov h]
    apply (elim exE)
    subgoal for ir h1
      apply (rule exI [of _ ir])
      apply (cases "flowIds fl (fst (getPendingOutbound fl c))")
       apply (simp_all add: Let_def del: assign.simps)
      done
    done
  then obtain ir where g:
    "fst (snd (getState Form fl c ov h))
       = (if pendingFork c then (snd (getPendingOutbound fl c))\<lparr>inputResult := ir\<rparr>
          else c\<lparr>inputResult := ir\<rparr>)"
    by (elim exE) (rule that)
  have "pendingWithinEdges ((snd (getPendingOutbound fl c))\<lparr>inputResult := ir\<rparr>)"
    using pendingWithinEdges_getPendingOutbound [OF assms, of fl]
      pendingWithinEdges_same [of "(snd (getPendingOutbound fl c))\<lparr>inputResult := ir\<rparr>"
        "snd (getPendingOutbound fl c)"]
    by simp
  moreover have "pendingWithinEdges (c\<lparr>inputResult := ir\<rparr>)"
    using assms pendingWithinEdges_same [of "c\<lparr>inputResult := ir\<rparr>" c] by simp
  ultimately show ?thesis using g by simp
qed

text \<open>
  \<^bold>\<open>C8\<close> (as amended). Round trip. Take any context over an activity with two or more
  outbound edges whose pending-outbound list, if it has one, holds edges of the activity and
  no \<^verbatim>\<open>undefined\<close> entry, and whose stashed state has neither a \<^verbatim>\<open>pendingOutbound\<close> nor
  a \<^verbatim>\<open>__proto__\<close> property. Then \<^verbatim>\<open>getState()\<close> returns a snapshot whose
  \<^verbatim>\<open>pendingOutbound\<close> lists the identifiers of the context's pending outbound edges in
  order. Construct another context on the same activity and call \<^verbatim>\<open>applyState\<close> with the
  snapshot: if the snapshot's \<^verbatim>\<open>pendingInbound\<close> is falsy or an identifier list that can be
  looked up, no error is raised and \<^verbatim>\<open>getPendingOutbound()\<close> of the second context lists
  edges with the same identifiers, in the same order, as that of the first; otherwise
  \<^verbatim>\<open>applyState\<close> raises a TypeError and restores nothing.
\<close>

theorem getState_applyState_roundtrip:
  assumes "length (outbound (activity c)) > 1"
    and "pendingEdges c"
    and "\<forall>s. savedState c = Some s \<longrightarrow> s ''pendingOutbound'' = None \<and> s ''__proto__'' = None"
  shows "\<exists>st ordering.
           fst (getState Form fl c None h) = Inr st
         \<and> fst (getPendingOutbound fl c) = map Some ordering
         \<and> st ''pendingOutbound'' = Some (JArr (map (\<lambda>f. JStr (flow_id (fl f))) ordering))
         \<and> (restorable (inbound (activity c)) (stateProp st ''pendingInbound'') \<longrightarrow>
              (\<exists>c2 restored.
                 applyState fl (execution (activity c) msg env inb rootf scaled) st = (None, c2)
               \<and> fst (getPendingOutbound fl c2) = map Some restored
               \<and> map (\<lambda>f. flow_id (fl f)) restored = map (\<lambda>f. flow_id (fl f)) ordering))
         \<and> (\<not> restorable (inbound (activity c)) (stateProp st ''pendingInbound'') \<longrightarrow>
              applyState fl (execution (activity c) msg env inb rootf scaled) st
                = (Some TypeError, execution (activity c) msg env inb rootf scaled))"
proof -
  let ?d = "execution (activity c) msg env inb rootf scaled"
  let ?own = "case activity_getState (activity c) of Some s \<Rightarrow> s | None \<Rightarrow> Map.empty"
  let ?form = "if truthy (form (activity c))
               then [''form'' \<mapsto> Form (getProp (form (activity c)) ''formData'')
                                    (fst (getInput c h)) (environment c)]
               else Map.empty"
  let ?state1 = "(?own ++ ?form, ObjectPrototype)"
  have fork: "pendingFork c" using assms(1) by (simp add: pendingFork_def)
  obtain ordering where o: "fst (getPendingOutbound fl c) = map Some ordering"
    and sub: "set ordering \<subseteq> set (outbound (activity c))"
    using pendingEdges_ordering [OF assms(2)] by blast
  let ?ids = "map (\<lambda>f. JStr (flow_id (fl f))) ordering"
  let ?st = "fst (assign (setProperty ?state1 ''pendingOutbound'' (JArr ?ids)) [None, savedState c])"
  obtain ir h1 where
    "getState Form fl c None h =
       (Inr ?st, (snd (getPendingOutbound fl c))\<lparr>inputResult := ir\<rparr>, h1)"
    using getState_eq [of Form fl c None h] fork o unfolding Let_def
    by (auto simp: flowIds_Some simp del: assign.simps)
  then have g: "fst (getState Form fl c None h) = Inr ?st" by simp
  have sv: "orEmpty (savedState c) ''pendingOutbound'' = None"
    using assms(3) by (cases "savedState c") (simp_all add: orEmpty_def)
  have po: "?st ''pendingOutbound'' = Some (JArr ?ids)"
    using assign2_lookup [of "''pendingOutbound''"
        "setProperty ?state1 ''pendingOutbound'' (JArr ?ids)" None "savedState c"] sv
    by (simp add: setProperty_def orEmpty_def map_add_def)
  then have sp: "stateProp ?st ''pendingOutbound'' = JArr ?ids"
    by (simp add: stateProp_def)
  have d: "activity ?d = activity c" "pendingOutbound ?d = None"
    by (simp_all add: execution_def)
  have ok: "\<exists>c2 restored. applyState fl ?d ?st = (None, c2)
               \<and> fst (getPendingOutbound fl c2) = map Some restored
               \<and> map (\<lambda>f. flow_id (fl f)) restored = map (\<lambda>f. flow_id (fl f)) ordering"
    if r: "restorable (inbound (activity c)) (stateProp ?st ''pendingInbound'')"
  proof -
    have r': "restorable (inbound (activity ?d)) (stateProp ?st ''pendingInbound'')"
      using r d(1) by simp
    from applyState_restores [OF sp r', of fl] obtain c2 where
      a: "applyState fl ?d ?st = (None, c2)"
      and p: "pendingOutbound c2
                = Some (map (\<lambda>i. find (\<lambda>g. JStr (flow_id (fl g)) = i) (outbound (activity c))) ?ids)"
      using d(1) by auto
    from restore_ids [OF sub, of fl] obtain ys where
      ys: "map (\<lambda>i. find (\<lambda>g. JStr (flow_id (fl g)) = i) (outbound (activity c))) ?ids = map Some ys"
        "map (\<lambda>g. flow_id (fl g)) ys = map (\<lambda>g. flow_id (fl g)) ordering"
      by blast
    have "fst (getPendingOutbound fl c2) = map Some ys"
      using p ys(1) by (simp add: getPendingOutbound_cached)
    then show ?thesis using a ys(2) by blast
  qed
  have bad: "applyState fl ?d ?st = (Some TypeError, ?d)"
    if r: "\<not> restorable (inbound (activity c)) (stateProp ?st ''pendingInbound'')"
  proof -
    have "\<not> restorable (inbound (activity ?d)) (stateProp ?st ''pendingInbound'')"
      using r d(1) by simp
    then show ?thesis by (rule applyState_raises)
  qed
  show ?thesis
    apply (rule exI [of _ ?st])
    apply (rule exI [of _ ordering])
    apply (intro conjI impI)
        apply (fact g)
       apply (fact o)
      apply (fact po)
     apply (erule ok)
    apply (erule bad)
    done
qed


theorem getState_applyState_roundtrip_witness:
  "length (outbound (activity
      (snd (applyState sampleFlows (execution gateway JUndefined (freshEnv Map.empty) None None 0)
              [''pendingOutbound'' \<mapsto> JArr [JStr ''B'', JStr ''A'']])))) > 1
   \<and> fst (getPendingOutbound sampleFlows
        (snd (applyState sampleFlows (execution gateway JUndefined (freshEnv Map.empty) None None 0)
                [''pendingOutbound'' \<mapsto> JArr [JStr ''B'', JStr ''A'']])))
       = [Some 1, Some 0]
   \<and> fst (getPendingOutbound sampleFlows
             (execution gateway JNull (freshEnv Map.empty) (Some 3) None 0))
       = [Some 0, Some 2, Some 1]
   \<and> (\<exists>st c2 restored.
         fst (getState (\<lambda>fd inp env. fd) sampleFlows
           (snd (applyState sampleFlows (execution gateway JUndefined (freshEnv Map.empty) None None 0)
                   [''pendingOutbound'' \<mapsto> JArr [JStr ''B'', JStr ''A'']])) None 0) = Inr st
       \<and> applyState sampleFlows (execution gateway JNull (freshEnv Map.empty) (Some 3) None 0) st
           = (None, c2)
       \<and> fst (getPendingOutbound sampleFlows c2) = map Some restored
       \<and> map (\<lambda>f. flow_id (sampleFlows f)) restored = [''B'', ''A''])"
proof -
  let ?e = "execution gateway JUndefined (freshEnv Map.empty) None None 0"
  let ?c = "snd (applyState sampleFlows ?e [''pendingOutbound'' \<mapsto> JArr [JStr ''B'', JStr ''A'']])"
  let ?d = "execution gateway JNull (freshEnv Map.empty) (Some 3) None 0"
  have c: "?c = ?e\<lparr>pendingOutbound := Some [Some 1, Some 0]\<rparr>"
    by (simp add: applyState_def stateProp_def mapFind_def execution_def gateway_def
        sampleFlows_def)
  have a: "activity ?c = gateway" "savedState ?c = None" "pendingOutbound ?c = Some [Some 1, Some 0]"
    unfolding c by (simp_all add: execution_def)
  have l: "length (outbound (activity ?c)) > 1" unfolding a by (simp add: gateway_def)
  have e: "pendingEdges ?c" by (simp only: pendingEdges_def a) (simp add: gateway_def)
  have s: "\<forall>s. savedState ?c = Some s \<longrightarrow> s ''pendingOutbound'' = None \<and> s ''__proto__'' = None"
    by (simp add: a)
  have p: "fst (getPendingOutbound sampleFlows ?c) = map Some [1, 0]"
    by (simp add: getPendingOutbound_cached a)
  have q: "fst (getPendingOutbound sampleFlows ?d) = [Some 0, Some 2, Some 1]"
    by (simp add: getPendingOutbound_def execution_def gateway_def sampleFlows_def Let_def
        splice1_def)
  from getState_applyState_roundtrip [OF l e s, where fl = sampleFlows
      and Form = "\<lambda>fd inp env. fd" and h = 0 and msg = JNull and env = "freshEnv Map.empty"
      and inb = "Some 3" and rootf = None and scaled = 0]
  obtain st ordering where
    g: "fst (getState (\<lambda>fd inp env. fd) sampleFlows ?c None 0) = Inr st"
    and o: "fst (getPendingOutbound sampleFlows ?c) = map Some ordering"
    and r: "restorable (inbound (activity ?c)) (stateProp st ''pendingInbound'') \<longrightarrow>
              (\<exists>c2 restored.
                 applyState sampleFlows (execution (activity ?c) JNull (freshEnv Map.empty) (Some 3) None 0) st
                   = (None, c2)
               \<and> fst (getPendingOutbound sampleFlows c2) = map Some restored
               \<and> map (\<lambda>f. flow_id (sampleFlows f)) restored
                   = map (\<lambda>f. flow_id (sampleFlows f)) ordering)"
    by (elim exE conjE) (rule that, assumption+)
  have "map Some ordering = map Some [1, 0]" using o p by (simp only:)
  then have ord: "ordering = [1, 0]" by (rule map_injective) simp
  have "Inr st = fst (getState (\<lambda>fd inp env. fd) sampleFlows ?c None 0)" using g by simp
  then have st: "st = projr (fst (getState (\<lambda>fd inp env. fd) sampleFlows ?c None 0))"
    by (metis sum.sel(2))
  have "stateProp st ''pendingInbound'' = JUndefined"
    unfolding st c
    by (simp add: getState_def pendingFork_def getPendingOutbound_def execution_def gateway_def
        Let_def stateProp_def setProperty_def)
  then have "restorable (inbound (activity ?c)) (stateProp st ''pendingInbound'')"
    by (simp add: restorable_def)
  with r obtain c2 restored where
    "applyState sampleFlows (execution (activity ?c) JNull (freshEnv Map.empty) (Some 3) None 0) st
       = (None, c2)"
    "fst (getPendingOutbound sampleFlows c2) = map Some restored"
    "map (\<lambda>f. flow_id (sampleFlows f)) restored = map (\<lambda>f. flow_id (sampleFlows f)) ordering"
    by blast
  then have "\<exists>st c2 restored.
         fst (getState (\<lambda>fd inp env. fd) sampleFlows ?c None 0) = Inr st
       \<and> applyState sampleFlows ?d st = (None, c2)
       \<and> fst (getPendingOutbound sampleFlows c2) = map Some restored
       \<and> map (\<lambda>f. flow_id (sampleFlows f)) restored = [''B'', ''A'']"
    using g ord a(1) by (auto simp: sampleFlows_def)
  then show ?thesis using l p q by simp
qed

text \<open>
  A context with a stashed \<^verbatim>\<open>pendingOutbound\<close>: its own pending outbound edges are A and B,
  the snapshot lists B alone, and the context restored from the snapshot has B alone.
\<close>

theorem getState_applyState_roundtrip_counterexample:
  "fst (getPendingOutbound sampleFlows
          (setState (execution task JUndefined (freshEnv Map.empty) None None 0)
             (Some [''pendingOutbound'' \<mapsto> JArr [JStr ''B'']])))
     = [Some 0, Some 1]
   \<and> applyState sampleFlows (execution task JUndefined (freshEnv Map.empty) None None 0)
        (projr (fst (getState (\<lambda>fd inp env. fd) sampleFlows
                       (setState (execution task JUndefined (freshEnv Map.empty) None None 0)
                          (Some [''pendingOutbound'' \<mapsto> JArr [JStr ''B'']])) None 0)))
     = (None, (execution task JUndefined (freshEnv Map.empty) None None 0)
                \<lparr>pendingOutbound := Some [Some 1]\<rparr>)
   \<and> fst (getPendingOutbound sampleFlows
            ((execution task JUndefined (freshEnv Map.empty) None None 0)
               \<lparr>pendingOutbound := Some [Some 1]\<rparr>))
     = [Some 1]"
  by (simp add: getState_def pendingFork_def getPendingOutbound_def setState_def execution_def
      task_def sampleFlows_def Let_def splice1_def applyState_def stateProp_def mapFind_def
      assignFrom_def setProperty_def)

text \<open>
  \<^bold>\<open>C9\<close> (as amended). For a persisted state whose \<^verbatim>\<open>pendingInbound\<close> and
  \<^verbatim>\<open>pendingOutbound\<close> are absent or arrays, on an activity that has an inbound list,
  \<^verbatim>\<open>applyState\<close> raises no error. An absent key leaves the pending list as it was. An array
  is restored entry by entry, in order and at full length: the entry of an identifier is the
  first live edge with that identifier, and it is \<^verbatim>\<open>undefined\<close> when no live edge has it.
  An unmatched identifier is thus kept as an \<^verbatim>\<open>undefined\<close> entry, not dropped.
\<close>

theorem applyState_keeps_unmatched:
  assumes "inbound (activity c) = Some inb"
    and "state ''pendingInbound'' = None \<or> (\<exists>ids. state ''pendingInbound'' = Some (JArr ids))"
    and "state ''pendingOutbound'' = None \<or> (\<exists>ids. state ''pendingOutbound'' = Some (JArr ids))"
  shows "\<exists>c'. applyState fl c state = (None, c')
           \<and> (state ''pendingInbound'' = None \<longrightarrow> pendingInbound c' = pendingInbound c)
           \<and> (\<forall>ids. state ''pendingInbound'' = Some (JArr ids) \<longrightarrow>
                 (\<exists>restored. pendingInbound c' = Some restored
                    \<and> list_all2 (resolves fl inb) ids restored))
           \<and> (state ''pendingOutbound'' = None \<longrightarrow> pendingOutbound c' = pendingOutbound c)
           \<and> (\<forall>ids. state ''pendingOutbound'' = Some (JArr ids) \<longrightarrow>
                 (\<exists>restored. pendingOutbound c' = Some restored
                    \<and> list_all2 (resolves fl (outbound (activity c))) ids restored))"
proof -
  let ?rin = "\<lambda>ids. map (\<lambda>i. find (\<lambda>f. JStr (flow_id (fl f)) = i) inb) ids"
  let ?rout = "\<lambda>ids. map (\<lambda>i. find (\<lambda>f. JStr (flow_id (fl f)) = i) (outbound (activity c))) ids"
  from assms(2) assms(3) show ?thesis
  proof (elim disjE exE)
    assume "state ''pendingInbound'' = None" "state ''pendingOutbound'' = None"
    then show ?thesis by (simp add: applyState_def stateProp_def)
  next
    fix ids assume "state ''pendingInbound'' = None" "state ''pendingOutbound'' = Some (JArr ids)"
    then show ?thesis
      using map_find_resolves [of fl "outbound (activity c)" ids]
      by (simp add: applyState_def stateProp_def mapFind_resolves)
  next
    fix ids assume "state ''pendingInbound'' = Some (JArr ids)" "state ''pendingOutbound'' = None"
    then show ?thesis
      using map_find_resolves [of fl inb ids] assms(1)
      by (simp add: applyState_def stateProp_def mapFind_resolves)
  next
    fix ids ids'
    assume "state ''pendingInbound'' = Some (JArr ids)" "state ''pendingOutbound'' = Some (JArr ids')"
    then show ?thesis
      using map_find_resolves [of fl inb ids] map_find_resolves [of fl "outbound (activity c)" ids']
        assms(1)
      by (simp add: applyState_def stateProp_def mapFind_resolves)
  qed
qed

theorem applyState_keeps_unmatched_witness:
  "inbound (activity (execution task JUndefined (freshEnv Map.empty) None None 0)) = Some [3]
   \<and> applyState sampleFlows (execution task JUndefined (freshEnv Map.empty) None None 0)
        [''pendingInbound'' \<mapsto> JArr [JStr ''in1''],
         ''pendingOutbound'' \<mapsto> JArr [JStr ''B'', JStr ''gone'', JStr ''A'']]
      = (None, (execution task JUndefined (freshEnv Map.empty) None None 0)
                 \<lparr>pendingInbound := Some [Some 3],
                  pendingOutbound := Some [Some 1, None, Some 0]\<rparr>)"
proof -
  let ?c = "execution task JUndefined (freshEnv Map.empty) None None 0"
  let ?s = "[''pendingInbound'' \<mapsto> JArr [JStr ''in1''],
             ''pendingOutbound'' \<mapsto> JArr [JStr ''B'', JStr ''gone'', JStr ''A'']]"
  have i: "inbound (activity ?c) = Some [3]" by (simp add: execution_def task_def)
  have a: "?s ''pendingInbound'' = None \<or> (\<exists>ids. ?s ''pendingInbound'' = Some (JArr ids))" by simp
  have b: "?s ''pendingOutbound'' = None \<or> (\<exists>ids. ?s ''pendingOutbound'' = Some (JArr ids))" by simp
  show ?thesis
    using applyState_keeps_unmatched [OF i a b, of sampleFlows] i
    by (simp add: applyState_def stateProp_def mapFind_def execution_def task_def sampleFlows_def)
qed

text \<open>
  A state with one matching and one unknown identifier: the restored list has two entries, the
  second \<^verbatim>\<open>undefined\<close>, and a later \<^verbatim>\<open>getState()\<close> raises a TypeError on it.
\<close>

theorem applyState_keeps_unmatched_counterexample:
  "applyState sampleFlows (execution task JUndefined (freshEnv Map.empty) None None 0)
     [''pendingOutbound'' \<mapsto> JArr [JStr ''A'', JStr ''zzz'']]
   = (None, (execution task JUndefined (freshEnv Map.empty) None None 0)
              \<lparr>pendingOutbound := Some [Some 0, None]\<rparr>)
   \<and> [Some 0, None] \<noteq> [Some (0::nat)]
   \<and> fst (getState (\<lambda>fd inp env. fd) sampleFlows
            ((execution task JUndefined (freshEnv Map.empty) None None 0)
               \<lparr>pendingOutbound := Some [Some 0, None]\<rparr>) None 0)
       = Inl TypeError"
  by (simp add: applyState_def stateProp_def mapFind_def task_def execution_def sampleFlows_def
      getState_def pendingFork_def getPendingOutbound_def Let_def)

end
